theory Spec2Isabelle
  imports Main "HOL-Library.Word" "HOL-Library.Sublist"
begin

section \<open>Strings\<close>

text \<open>
  A JavaScript string is a sequence of 16-bit code units; \<open>length\<close>, \<open>trim\<close>,
  \<open>includes\<close>, \<open>replace\<close> and the regular expressions of the editor (none has the
  \<open>u\<close> flag) all work on code units.  \<open>lit\<close> turns an ASCII literal of the source
  into such a sequence.
\<close>

type_synonym code_unit = "16 word"
type_synonym jsstring = "code_unit list"

definition lit :: "string \<Rightarrow> jsstring" where
  "lit s = map of_char s"

text \<open>
  \<open>String.prototype.trim\<close> removes WhiteSpace and LineTerminator code units from both
  ends: TAB, LF, VT, FF, CR, SP, NBSP, U+1680, U+2000 .. U+200A, U+2028, U+2029, U+202F,
  U+205F, U+3000 and U+FEFF.
\<close>

definition isWhiteSpace :: "code_unit \<Rightarrow> bool" where
  "isWhiteSpace c \<longleftrightarrow>
     c \<in> {0x09, 0x0A, 0x0B, 0x0C, 0x0D, 0x20, 0xA0, 0x1680, 0x2028, 0x2029, 0x202F, 0x205F,
          0x3000, 0xFEFF}
     \<or> (0x2000 \<le> c \<and> c \<le> 0x200A)"

definition trim :: "jsstring \<Rightarrow> jsstring" where
  "trim s = rev (dropWhile isWhiteSpace (rev (dropWhile isWhiteSpace s)))"

text \<open>
  Matching under the \<open>i\<close> flag compares canonicalised code units.  Every literal of the two
  patterns is ASCII, and a code unit outside ASCII never canonicalises into ASCII, so an input
  code unit matches the pattern's \<open>p\<close> exactly when both agree after ASCII upper-casing.
\<close>

definition toUpperAscii :: "code_unit \<Rightarrow> code_unit" where
  "toUpperAscii c = (if 0x61 \<le> c \<and> c \<le> 0x7A then c - 0x20 else c)"

definition ci_eq :: "code_unit \<Rightarrow> code_unit \<Rightarrow> bool" where
  "ci_eq p c \<longleftrightarrow> toUpperAscii p = toUpperAscii c"

text \<open>
  \<open>stripPrefixBy eq pat s\<close> matches the literal \<open>pat\<close> at the start of \<open>s\<close>, comparing with
  \<open>eq\<close>, and returns what follows the match.
\<close>

fun stripPrefixBy :: "('a \<Rightarrow> 'a \<Rightarrow> bool) \<Rightarrow> 'a list \<Rightarrow> 'a list \<Rightarrow> 'a list option" where
  "stripPrefixBy eq [] s = Some s"
| "stripPrefixBy eq (p # ps) [] = None"
| "stripPrefixBy eq (p # ps) (c # cs) = (if eq p c then stripPrefixBy eq ps cs else None)"

definition startsWith :: "jsstring \<Rightarrow> jsstring \<Rightarrow> bool" where
  "startsWith s pat \<longleftrightarrow> stripPrefixBy (=) pat s \<noteq> None"

definition startsWith_ci :: "jsstring \<Rightarrow> jsstring \<Rightarrow> bool" where
  "startsWith_ci s pat \<longleftrightarrow> stripPrefixBy ci_eq pat s \<noteq> None"

definition endsWith :: "jsstring \<Rightarrow> jsstring \<Rightarrow> bool" where
  "endsWith s pat \<longleftrightarrow> startsWith (rev s) (rev pat)"

text \<open>\<open>s.includes(pat)\<close>: \<open>pat\<close> occurs at some position of \<open>s\<close>.\<close>

fun includes_str :: "jsstring \<Rightarrow> jsstring \<Rightarrow> bool" where
  "includes_str [] pat = startsWith [] pat"
| "includes_str (c # cs) pat = (startsWith (c # cs) pat \<or> includes_str cs pat)"

text \<open>
  The same test under case-insensitive comparison.  The source has no such call; the
  properties below use it to say where a tag occurs in a document.
\<close>

fun includes_ci :: "jsstring \<Rightarrow> jsstring \<Rightarrow> bool" where
  "includes_ci [] pat = startsWith_ci [] pat"
| "includes_ci (c # cs) pat = (startsWith_ci (c # cs) pat \<or> includes_ci cs pat)"

text \<open>\<open>parts.join(sep)\<close>.\<close>

fun join :: "jsstring \<Rightarrow> jsstring list \<Rightarrow> jsstring" where
  "join sep [] = []"
| "join sep [x] = x"
| "join sep (x # y # ys) = x @ sep @ join sep (y # ys)"

text \<open>
  \<open>s.replace(pat, template)\<close> with a string pattern replaces the first occurrence only, and
  the template is expanded by GetSubstitution: \<open>$$\<close> gives \<open>$\<close>, \<open>$&\<close> the matched text,
  \<open>$`\<close> the text before the match, \<open>$'\<close> the text after it.  A string pattern has no
  captures, so \<open>$1\<close>, \<open>$<\<close> and every other \<open>$\<close> stay as they are.
\<close>

fun splitFirst :: "jsstring \<Rightarrow> jsstring \<Rightarrow> (jsstring \<times> jsstring) option" where
  "splitFirst pat [] = (if pat = [] then Some ([], []) else None)"
| "splitFirst pat (c # cs) =
     (case stripPrefixBy (=) pat (c # cs) of
        Some rest \<Rightarrow> Some ([], rest)
      | None \<Rightarrow> map_option (\<lambda>(pre, post). (c # pre, post)) (splitFirst pat cs))"

fun getSubstitution :: "jsstring \<Rightarrow> jsstring \<Rightarrow> jsstring \<Rightarrow> jsstring \<Rightarrow> jsstring" where
  "getSubstitution matched pre post [] = []"
| "getSubstitution matched pre post [c] = [c]"
| "getSubstitution matched pre post (c # d # t) =
     (if c = 0x24 \<and> d = 0x24 then 0x24 # getSubstitution matched pre post t
      else if c = 0x24 \<and> d = 0x26 then matched @ getSubstitution matched pre post t
      else if c = 0x24 \<and> d = 0x60 then pre @ getSubstitution matched pre post t
      else if c = 0x24 \<and> d = 0x27 then post @ getSubstitution matched pre post t
      else c # getSubstitution matched pre post (d # t))"

definition replace :: "jsstring \<Rightarrow> jsstring \<Rightarrow> jsstring \<Rightarrow> jsstring" where
  "replace s pat template =
     (case splitFirst pat s of
        None \<Rightarrow> s
      | Some (pre, post) \<Rightarrow> pre @ getSubstitution pat pre post template @ post)"

text \<open>
  \<open>s.replace(/pat/g, '')\<close> for a literal, non-empty \<open>pat\<close>: every occurrence found by a
  left-to-right scan is removed, the scan resuming after each match.  The counter is the number
  of code units of the current match still to be skipped.
\<close>

fun removeAllFrom :: "nat \<Rightarrow> jsstring \<Rightarrow> jsstring \<Rightarrow> jsstring" where
  "removeAllFrom k pat [] = []"
| "removeAllFrom (Suc k) pat (c # cs) = removeAllFrom k pat cs"
| "removeAllFrom 0 pat (c # cs) =
     (if pat \<noteq> [] \<and> startsWith (c # cs) pat then removeAllFrom (length pat - 1) pat cs
      else c # removeAllFrom 0 pat cs)"

definition removeAll_str :: "jsstring \<Rightarrow> jsstring \<Rightarrow> jsstring" where
  "removeAll_str s pat = removeAllFrom 0 pat s"

section \<open>The two regular expressions of the extractor\<close>

text \<open>
  \<open>s.match(re)\<close> without the \<open>g\<close> flag tries the pattern at position 0, 1, 2, ... and
  returns the first success; \<open>at\<close> is the pattern anchored at the start of its argument and
  returns capture group 1.
\<close>

fun firstMatch :: "(jsstring \<Rightarrow> 'a option) \<Rightarrow> jsstring \<Rightarrow> 'a option" where
  "firstMatch at [] = at []"
| "firstMatch at (c # cs) = (case at (c # cs) of Some r \<Rightarrow> Some r | None \<Rightarrow> firstMatch at cs)"

text \<open>
  \<open>([\s\S]*?)close\<close> under the \<open>i\<close> flag: the lazy group takes 0, 1, 2, ... code units until
  \<open>close\<close> matches; the result is the group.
\<close>

fun lazyUntil :: "jsstring \<Rightarrow> jsstring \<Rightarrow> jsstring option" where
  "lazyUntil close [] = (if startsWith_ci [] close then Some [] else None)"
| "lazyUntil close (c # cs) =
     (if startsWith_ci (c # cs) close then Some []
      else map_option ((#) c) (lazyUntil close cs))"

text \<open>
  \<open>[^>]*>\<close>: the greedy class takes the whole run of code units other than \<open>>\<close>; giving
  one back leaves a code unit of the run where \<open>>\<close> is required, so only the whole run can
  succeed, and it does when a \<open>>\<close> follows it.
\<close>

definition afterTagEnd :: "jsstring \<Rightarrow> jsstring option" where
  "afterTagEnd r = (case dropWhile (\<lambda>c. c \<noteq> 0x3E) r of [] \<Rightarrow> None | _ # body \<Rightarrow> Some body)"

text \<open>\<open>/<style[^>]*>([\s\S]*?)<\/style>/i\<close> anchored at the start of \<open>s\<close>.\<close>

definition styleAt :: "jsstring \<Rightarrow> jsstring option" where
  "styleAt s =
     (case stripPrefixBy ci_eq (lit ''<style'') s of
        None \<Rightarrow> None
      | Some r \<Rightarrow> (case afterTagEnd r of
                    None \<Rightarrow> None
                  | Some body \<Rightarrow> lazyUntil (lit ''</style>'') body))"

text \<open>
  The lookahead \<open>(?![^>]*src)\<close> fails when \<open>[^>]*src\<close> matches: when \<open>src\<close>, in any case,
  starts after some number of code units other than \<open>>\<close>.
\<close>

fun srcAhead :: "jsstring \<Rightarrow> bool" where
  "srcAhead [] = startsWith_ci [] (lit ''src'')"
| "srcAhead (c # cs) = (startsWith_ci (c # cs) (lit ''src'') \<or> (c \<noteq> 0x3E \<and> srcAhead cs))"

text \<open>\<open>/<script(?![^>]*src)[^>]*>([\s\S]*?)<\/script>/i\<close> anchored at the start of \<open>s\<close>.\<close>

definition scriptAt :: "jsstring \<Rightarrow> jsstring option" where
  "scriptAt s =
     (case stripPrefixBy ci_eq (lit ''<script'') s of
        None \<Rightarrow> None
      | Some r \<Rightarrow>
          if srcAhead r then None
          else (case afterTagEnd r of
                  None \<Rightarrow> None
                | Some body \<Rightarrow> lazyUntil (lit ''</script>'') body))"

section \<open>The virtual file system\<close>

datatype language = Html | Css | Javascript

record VirtualFile =
  fid :: jsstring
  name :: jsstring
  language :: language
  content :: jsstring

definition isIndex :: "VirtualFile \<Rightarrow> bool" where
  "isIndex f \<longleftrightarrow> name f = lit ''index.html''"

subsection \<open>parseProjectCode\<close>

definition parseProjectCode :: "jsstring \<Rightarrow> VirtualFile list" where
  "parseProjectCode fullHtml =
     (let cssContent = (case firstMatch styleAt fullHtml of Some g \<Rightarrow> trim g | None \<Rightarrow> []);
          jsContent = (case firstMatch scriptAt fullHtml of Some g \<Rightarrow> trim g | None \<Rightarrow> [])
      in [\<lparr>fid = lit ''1'', name = lit ''index.html'', language = Html, content = fullHtml\<rparr>]
         @ (if length cssContent > 0
            then [\<lparr>fid = lit ''2'', name = lit ''styles.css'', language = Css,
                   content = cssContent\<rparr>]
            else [])
         @ (if length jsContent > 0
            then [\<lparr>fid = lit ''3'', name = lit ''script.js'', language = Javascript,
                   content = jsContent\<rparr>]
            else []))"

subsection \<open>bundlePreview\<close>

text \<open>
  One injection step of the bundler: nothing when the trimmed payload is empty, otherwise the
  block goes in front of the first \<open>closing\<close> tag through \<open>replace\<close>, or at the end of the
  document when the tag does not occur.
\<close>

definition inject :: "jsstring \<Rightarrow> jsstring \<Rightarrow> jsstring \<Rightarrow> jsstring \<Rightarrow> jsstring \<Rightarrow> jsstring" where
  "inject opening payload ending closing bundled =
     (if trim payload \<noteq> [] then
        (if includes_str bundled closing
         then replace bundled closing (opening @ payload @ ending @ closing)
         else bundled @ opening @ payload @ ending)
      else bundled)"

definition bundlePreview :: "VirtualFile list \<Rightarrow> jsstring" where
  "bundlePreview fs =
     (let indexHtml = (case find isIndex fs of Some f \<Rightarrow> content f | None \<Rightarrow> []);
          styles = join [0x0A] (map content (filter (\<lambda>f. language f = Css) fs));
          scripts = join [0x0A]
                      (map content (filter (\<lambda>f. language f = Javascript) fs));
          bundled = inject (lit ''<style>'') styles (lit ''</style>'') (lit ''</head>'') indexHtml
      in inject (lit ''<script>'') scripts (lit ''</script>'') (lit ''</body>'') bundled)"

section \<open>The editor\<close>

datatype role = User | Model

record ChatMessage =
  role :: role
  msg_text :: jsstring

text \<open>The two optional fields of the persisted project that the editor reads and writes.\<close>

record Project =
  project_code :: "jsstring option"
  project_chatHistory :: "ChatMessage list option"

datatype EditorView = Preview | CodeView

record editor =
  viewMode :: EditorView
  files :: "VirtualFile list"
  activeFileId :: jsstring
  chatInput :: jsstring
  isEditing :: bool
  chatHistory :: "ChatMessage list"

text \<open>What a handler shows to the user or hands to the parent component.\<close>

datatype effect = Alert jsstring | OnUpdate Project

text \<open>
  The initial state of the component: \<open>parseProjectCode(project.code || '')\<close>,
  \<open>files[0]?.id || '1'\<close> and \<open>project.chatHistory || []\<close>.
\<close>

definition initEditor :: "Project \<Rightarrow> editor" where
  "initEditor project =
     (let fs = parseProjectCode (case project_code project of Some c \<Rightarrow> c | None \<Rightarrow> [])
      in \<lparr>viewMode = Preview,
          files = fs,
          activeFileId = (case fs of [] \<Rightarrow> lit ''1''
                          | f # _ \<Rightarrow> if fid f \<noteq> [] then fid f else lit ''1''),
          chatInput = [],
          isEditing = False,
          chatHistory = (case project_chatHistory project of Some h \<Rightarrow> h | None \<Rightarrow> [])\<rparr>)"

subsection \<open>File operations\<close>

definition handleFileChange :: "jsstring \<Rightarrow> editor \<Rightarrow> editor" where
  "handleFileChange newContent s =
     s\<lparr>files := map (\<lambda>f. if fid f = activeFileId s then f\<lparr>content := newContent\<rparr> else f)
                    (files s)\<rparr>"

text \<open>
  \<open>answer\<close> is what \<open>prompt\<close> returns (\<open>None\<close> for a cancelled dialog) and \<open>newId\<close> is
  \<open>Date.now().toString()\<close>.
\<close>

definition handleCreateFile :: "jsstring option \<Rightarrow> jsstring \<Rightarrow> editor \<Rightarrow> editor" where
  "handleCreateFile answer newId s =
     (case answer of
        None \<Rightarrow> s
      | Some nm \<Rightarrow>
          if nm = [] then s
          else
            let lang0 = Html;
                lang1 = (if endsWith nm (lit ''.css'') then Css else lang0);
                lang = (if endsWith nm (lit ''.js'') then Javascript else lang1);
                newFile = \<lparr>fid = newId, name = nm, language = lang,
                            content = (if lang = Html then lit ''<!-- New Page -->''
                                       else lit ''/* New Style */'')\<rparr>
            in s\<lparr>files := files s @ [newFile], activeFileId := fid newFile\<rparr>)"

text \<open>\<open>confirmed\<close> is the answer of \<open>window.confirm\<close>, asked only past the guard.\<close>

definition handleDeleteFile :: "jsstring \<Rightarrow> bool \<Rightarrow> editor \<Rightarrow> effect list \<times> editor" where
  "handleDeleteFile i confirmed s =
     (if length (files s) \<le> 1 then ([Alert (lit ''Cannot delete the last file.'')], s)
      else if confirmed then
        ([], s\<lparr>files := filter (\<lambda>f. fid f \<noteq> i) (files s),
                activeFileId :=
                  (if activeFileId s = i
                   then (case find (\<lambda>f. fid f \<noteq> i) (files s) of
                           Some f \<Rightarrow> fid f
                         | None \<Rightarrow> [])
                   else activeFileId s)\<rparr>)
      else ([], s))"

subsection \<open>The edit cycle\<close>

text \<open>
  An asynchronous iteration, as its consumer sees it: the values it yields, then whether it
  completes or throws.
\<close>

datatype ending = Completes | Raises

type_synonym 'a async_stream = "'a list \<times> ending"

text \<open>
  The generation service is outside the repository: \<open>service currentCode prompt\<close> stands
  for what \<open>ai.models.generateContentStream\<close> does on the request built from the two texts:
  the \<open>text\<close> fields of the chunks it delivers (\<open>None\<close> for an undefined one), and whether
  it then completes or throws (throwing before any chunk included).
\<close>

type_synonym generation_service = "jsstring \<Rightarrow> jsstring \<Rightarrow> jsstring option async_stream"

definition streamCodeEdit ::
    "generation_service \<Rightarrow> jsstring \<Rightarrow> jsstring \<Rightarrow> jsstring async_stream" where
  "streamCodeEdit service currentCode prompt =
     (let response = service currentCode prompt;
          yielded = concat (map (\<lambda>chunk. case chunk of
                                            Some t \<Rightarrow> if t \<noteq> [] then [t] else []
                                          | None \<Rightarrow> [])
                              (fst response))
      in case snd response of
           Completes \<Rightarrow> (yielded, Completes)
         | Raises \<Rightarrow> (yielded @ [currentCode], Completes))"

definition progressMsg :: ChatMessage where
  "progressMsg =
     \<lparr>role = Model, msg_text = lit ''Analyzing project structure and applying changes...''\<rparr>"

definition successMsg :: ChatMessage where
  "successMsg = \<lparr>role = Model, msg_text = lit ''Code updated successfully.''\<rparr>"

definition errorMsg :: ChatMessage where
  "errorMsg = \<lparr>role = Model, msg_text = lit ''Error applying changes.''\<rparr>"

text \<open>\<open>updatedCode.replace(/```html/g, '').replace(/```/g, '').trim()\<close>\<close>

definition stripFences :: "jsstring \<Rightarrow> jsstring" where
  "stripFences raw =
     trim (removeAll_str (removeAll_str raw (lit ''```html'')) (lit ''```''))"

text \<open>The updater given to \<open>setFiles\<close> on success.\<close>

definition mergeFiles :: "jsstring \<Rightarrow> VirtualFile list \<Rightarrow> VirtualFile list" where
  "mergeFiles updatedCode prev =
     (let newFiles = parseProjectCode updatedCode;
          newIndex = find isIndex newFiles
      in map (\<lambda>f. case newIndex of
                     Some found \<Rightarrow> if isIndex f then f\<lparr>content := content found\<rparr> else f
                   | None \<Rightarrow> f)
             prev)"

text \<open>
  The part of \<open>handleSendMessage\<close> before the \<open>await\<close>.  \<open>None\<close> is the early return of the
  guard; otherwise the user's message and the history that the continuation closes over are
  returned with the effects and the new state.
\<close>

definition sendBegin ::
    "Project \<Rightarrow> editor \<Rightarrow> (jsstring \<times> ChatMessage list \<times> effect list \<times> editor) option" where
  "sendBegin project s =
     (if trim (chatInput s) = [] \<or> isEditing s then None
      else
        let userMsg = chatInput s;
            newHistoryUser = chatHistory s @ [\<lparr>role = User, msg_text = userMsg\<rparr>]
        in Some (userMsg, newHistoryUser,
                 [OnUpdate (project\<lparr>project_chatHistory := Some newHistoryUser\<rparr>)],
                 s\<lparr>chatInput := [], isEditing := True, viewMode := Preview,
                   chatHistory := newHistoryUser @ [progressMsg]\<rparr>))"

text \<open>
  The \<open>try\<close> block once the stream has been consumed: \<open>Some updatedCode\<close> when the response
  passes the check, \<open>None\<close> when the stream threw or \<open>"Generated code invalid"\<close> is thrown.
\<close>

definition acceptedCode :: "jsstring async_stream \<Rightarrow> jsstring option" where
  "acceptedCode stream =
     (case snd stream of
        Raises \<Rightarrow> None
      | Completes \<Rightarrow>
          let updatedCode = stripFences (concat (fst stream))
          in if updatedCode \<noteq> [] \<and> length updatedCode > 50 then Some updatedCode else None)"

text \<open>
  The continuation after the \<open>await\<close>, on the state of that moment: the merge and the
  success message, or the \<open>catch\<close> block; \<open>finally\<close> releases the gate.
\<close>

definition sendResume ::
    "Project \<Rightarrow> ChatMessage list \<Rightarrow> jsstring async_stream \<Rightarrow> editor \<Rightarrow> effect list \<times> editor" where
  "sendResume project newHistoryUser stream s =
     (case acceptedCode stream of
        Some updatedCode \<Rightarrow>
          let finalHistory = newHistoryUser @ [successMsg]
          in ([OnUpdate (project\<lparr>project_code := Some updatedCode,
                                 project_chatHistory := Some finalHistory\<rparr>)],
              s\<lparr>files := mergeFiles updatedCode (files s),
                chatHistory := finalHistory,
                isEditing := False\<rparr>)
      | None \<Rightarrow> ([], s\<lparr>chatHistory := chatHistory s @ [errorMsg], isEditing := False\<rparr>))"

text \<open>
  One whole edit cycle, with no other event between the request and its answer.  The component
  calls the \<open>streamCodeEdit\<close> it imports; that function is the parameter \<open>streamEdit\<close>,
  and the application runs \<open>handleSendMessage (streamCodeEdit service)\<close>.
\<close>

definition handleSendMessage ::
    "(jsstring \<Rightarrow> jsstring \<Rightarrow> jsstring async_stream) \<Rightarrow> Project \<Rightarrow> editor
       \<Rightarrow> effect list \<times> editor" where
  "handleSendMessage streamEdit project s =
     (case sendBegin project s of
        None \<Rightarrow> ([], s)
      | Some (userMsg, newHistoryUser, effs, s1) \<Rightarrow>
          let currentBundled = bundlePreview (files s);
              stream = streamEdit currentBundled userMsg;
              (effs', s2) = sendResume project newHistoryUser stream s1
          in (effs @ effs', s2))"

subsection \<open>Reachable editor states\<close>

text \<open>
  The states the component can be in: it opens on a project, and every later state comes from
  one event.  A created file gets \<open>Date.now().toString()\<close> as its id; the clock is taken
  to give an id that no file of the store has.  The two halves of an edit cycle are separate
  events, so other events may fall between a request and its answer.
\<close>

inductive reachable :: "editor \<Rightarrow> bool" where
  opened: "reachable (initEditor project)"
| selected: "reachable s \<Longrightarrow> f \<in> set (files s) \<Longrightarrow> reachable (s\<lparr>activeFileId := fid f\<rparr>)"
| typed: "reachable s \<Longrightarrow> reachable (s\<lparr>chatInput := t\<rparr>)"
| switched: "reachable s \<Longrightarrow> reachable (s\<lparr>viewMode := v\<rparr>)"
| changed: "reachable s \<Longrightarrow> reachable (handleFileChange newContent s)"
| created: "reachable s \<Longrightarrow> newId \<notin> fid ` set (files s)
              \<Longrightarrow> reachable (handleCreateFile answer newId s)"
| deleted: "reachable s \<Longrightarrow> reachable (snd (handleDeleteFile i confirmed s))"
| begun: "reachable s \<Longrightarrow> sendBegin project s = Some (userMsg, newHistoryUser, effs, s')
            \<Longrightarrow> reachable s'"
| resumed: "reachable s \<Longrightarrow> reachable (snd (sendResume project newHistoryUser stream s))"

section \<open>Vocabulary of the properties\<close>

text \<open>The three files \<open>parseProjectCode\<close> can emit.\<close>

abbreviation rootFile :: "jsstring \<Rightarrow> VirtualFile" where
  "rootFile d \<equiv> \<lparr>fid = lit ''1'', name = lit ''index.html'', language = Html, content = d\<rparr>"

abbreviation cssFile :: "jsstring \<Rightarrow> VirtualFile" where
  "cssFile d \<equiv> \<lparr>fid = lit ''2'', name = lit ''styles.css'', language = Css, content = d\<rparr>"

abbreviation jsFile :: "jsstring \<Rightarrow> VirtualFile" where
  "jsFile d \<equiv>
     \<lparr>fid = lit ''3'', name = lit ''script.js'', language = Javascript, content = d\<rparr>"

subsection \<open>Example values\<close>

abbreviation exampleDoc :: jsstring where
  "exampleDoc \<equiv>
     lit ''<html><head></head><body><p>Hello, world of previews!</p></body></html>''"

abbreviation editedDoc :: jsstring where
  "editedDoc \<equiv>
     lit ''<html><head></head><body><p>Hello, blue world of previews!</p></body></html>''"

abbreviation exampleProject :: Project where
  "exampleProject \<equiv> \<lparr>project_code = Some exampleDoc, project_chatHistory = None\<rparr>"

abbreviation exampleFiles :: "VirtualFile list" where
  "exampleFiles \<equiv> [rootFile exampleDoc, cssFile (lit ''p{color:red}''), jsFile (lit ''alert(1)'')]"

abbreviation exampleEditor :: editor where
  "exampleEditor \<equiv>
     \<lparr>viewMode = CodeView, files = exampleFiles, activeFileId = lit ''1'',
      chatInput = lit ''make it blue'', isEditing = False, chatHistory = []\<rparr>"

text \<open>A service that answers with the edited document, and one that throws before it delivers
  anything.\<close>

abbreviation answeringService :: generation_service where
  "answeringService \<equiv> (\<lambda>currentCode prompt. ([Some editedDoc], Completes))"

abbreviation failingService :: generation_service where
  "failingService \<equiv> (\<lambda>currentCode prompt. ([], Raises))"

text \<open>What \<open>exampleFiles\<close> bundles to.\<close>

abbreviation bundledDoc :: jsstring where
  "bundledDoc \<equiv>
     lit ''<html><head><style>p{color:red}</style></head><body><p>Hello, world of previews!</p><script>alert(1)</script></body></html>''"

text \<open>
  A service that throws after it has delivered one fragment, and the text the edit cycle then
  assembles from that fragment and the bundle of \<open>exampleFiles\<close>.
\<close>

abbreviation interruptedService :: generation_service where
  "interruptedService \<equiv> (\<lambda>currentCode prompt. ([Some (lit ''<html>'')], Raises))"

abbreviation interruptedDoc :: jsstring where
  "interruptedDoc \<equiv>
     lit ''<html><html><head><style>p{color:red}</style></head><body><p>Hello, world of previews!</p><script>alert(1)</script></body></html>''"

text \<open>A project that opens with the two auxiliary files of \<open>exampleFiles\<close>.\<close>

abbreviation blocksProject :: Project where
  "blocksProject \<equiv>
     \<lparr>project_code = Some (lit ''<style>p{color:red}</style><script>alert(1)</script>''),
      project_chatHistory = None\<rparr>"

text \<open>A project whose document has one style block.\<close>

abbreviation styledProject :: Project where
  "styledProject \<equiv>
     \<lparr>project_code = Some (lit ''<style>a</style>''), project_chatHistory = None\<rparr>"

text \<open>A store whose only style file holds one space.\<close>

abbreviation blankStyleFiles :: "VirtualFile list" where
  "blankStyleFiles \<equiv> [rootFile (lit ''<head></head>''), cssFile (lit '' '')]"

text \<open>A document with two style blocks, and one with an external and two inline scripts.\<close>

abbreviation twoStylesDoc :: jsstring where
  "twoStylesDoc \<equiv> lit ''<p>x</p><STYLE media=all> a{} </style><style>b{}</style>''"

abbreviation threeScriptsDoc :: jsstring where
  "threeScriptsDoc \<equiv> lit ''<script src=x></script><script> f() </SCRIPT><script>g()</script>''"

section \<open>Properties of the bundler\<close>

lemma trim_Nil [simp]: "trim [] = []"
  by (simp add: trim_def)

lemma inject_blank:
  "trim payload = [] \<Longrightarrow> inject opening payload ending closing bundled = bundled"
  by (simp add: inject_def)

text \<open>
  C9.  A store without style-language and without script-language files bundles to the content
  of its root file, the first file named \<open>index.html\<close>, and to the empty string when no file
  has that name.
\<close>

theorem bundlePreview_trivial_store:
  assumes "\<forall>f \<in> set fs. language f \<noteq> Css \<and> language f \<noteq> Javascript"
  shows "(\<forall>r. find isIndex fs = Some r \<longrightarrow> bundlePreview fs = content r)
       \<and> ((\<forall>f \<in> set fs. \<not> isIndex f) \<longrightarrow> bundlePreview fs = [])"
proof -
  have css: "filter (\<lambda>f. language f = Css) fs = []"
    using assms by (simp add: filter_empty_conv)
  have js: "filter (\<lambda>f. language f = Javascript) fs = []"
    using assms by (simp add: filter_empty_conv)
  have b: "bundlePreview fs = (case find isIndex fs of Some f \<Rightarrow> content f | None \<Rightarrow> [])"
    by (simp add: bundlePreview_def css js inject_blank)
  have "(\<forall>f \<in> set fs. \<not> isIndex f) \<Longrightarrow> find isIndex fs = None"
    by (simp add: find_None_iff)
  with b show ?thesis by simp
qed

theorem bundlePreview_trivial_store_witness:
  "(language \<lparr>fid = lit ''1'', name = lit ''index.html'', language = Html,
              content = lit ''<p>hi</p>''\<rparr> = Html
    \<and> find isIndex [\<lparr>fid = lit ''1'', name = lit ''index.html'', language = Html,
                      content = lit ''<p>hi</p>''\<rparr>]
        = Some \<lparr>fid = lit ''1'', name = lit ''index.html'', language = Html,
                content = lit ''<p>hi</p>''\<rparr>
    \<and> bundlePreview [\<lparr>fid = lit ''1'', name = lit ''index.html'', language = Html,
                       content = lit ''<p>hi</p>''\<rparr>]
        = lit ''<p>hi</p>'')
   \<and> (language \<lparr>fid = lit ''7'', name = lit ''page2.html'', language = Html,
                content = lit ''<p>two</p>''\<rparr> = Html
      \<and> \<not> isIndex \<lparr>fid = lit ''7'', name = lit ''page2.html'', language = Html,
                    content = lit ''<p>two</p>''\<rparr>
      \<and> bundlePreview [\<lparr>fid = lit ''7'', name = lit ''page2.html'', language = Html,
                         content = lit ''<p>two</p>''\<rparr>]
          = [])"
  using bundlePreview_trivial_store
    [of "[\<lparr>fid = lit ''1'', name = lit ''index.html'', language = Html,
            content = lit ''<p>hi</p>''\<rparr>]"]
    bundlePreview_trivial_store
    [of "[\<lparr>fid = lit ''7'', name = lit ''page2.html'', language = Html,
            content = lit ''<p>two</p>''\<rparr>]"]
  by (simp add: isIndex_def lit_def)

section \<open>Properties of the file operations\<close>

text \<open>
  C8.  Deleting in a store of exactly one file changes nothing, whatever id is given, and the
  handler itself raises the alert that refuses the deletion; the confirmation dialog is not
  reached.
\<close>

theorem handleDeleteFile_last_file:
  assumes "length (files s) = 1"
  shows "handleDeleteFile i confirmed s = ([Alert (lit ''Cannot delete the last file.'')], s)"
  using assms by (simp add: handleDeleteFile_def)

theorem handleDeleteFile_last_file_witness:
  "length (files (initEditor \<lparr>project_code = None, project_chatHistory = None\<rparr>)) = 1
   \<and> handleDeleteFile (lit ''1'') True
         (initEditor \<lparr>project_code = None, project_chatHistory = None\<rparr>)
       = ([Alert (lit ''Cannot delete the last file.'')],
          initEditor \<lparr>project_code = None, project_chatHistory = None\<rparr>)"
proof -
  have one: "length (files (initEditor \<lparr>project_code = None, project_chatHistory = None\<rparr>)) = 1"
    by (simp add: initEditor_def parseProjectCode_def styleAt_def scriptAt_def lit_def)
  show ?thesis
    using one handleDeleteFile_last_file [OF one, of "lit ''1''" True] by simp
qed

section \<open>Properties of the extractor\<close>

lemma lit_names_distinct [simp]:
  "lit ''index.html'' \<noteq> lit ''styles.css''" "lit ''index.html'' \<noteq> lit ''script.js''"
  "lit ''styles.css'' \<noteq> lit ''index.html''" "lit ''script.js'' \<noteq> lit ''index.html''"
  by (simp_all add: lit_def)

lemma lit_ids_distinct [simp]:
  "lit ''1'' \<noteq> lit ''2''" "lit ''1'' \<noteq> lit ''3''" "lit ''2'' \<noteq> lit ''3''"
  "lit ''2'' \<noteq> lit ''1''" "lit ''3'' \<noteq> lit ''1''" "lit ''3'' \<noteq> lit ''2''" "lit ''1'' \<noteq> []"
  by (simp_all add: lit_def)

lemma styleAt_Some_starts: "styleAt s = Some g \<Longrightarrow> startsWith_ci s (lit ''<style'')"
  by (auto simp: styleAt_def startsWith_ci_def split: option.splits)

lemma scriptAt_Some_starts: "scriptAt s = Some g \<Longrightarrow> startsWith_ci s (lit ''<script'')"
  by (auto simp: scriptAt_def startsWith_ci_def split: option.splits if_splits)

lemma firstMatch_None_if:
  assumes "\<And>s g. at s = Some g \<Longrightarrow> startsWith_ci s pat"
  shows "\<not> includes_ci D pat \<Longrightarrow> firstMatch at D = None"
proof (induction D)
  case Nil
  then show ?case using assms [of "[]"] by (cases "at []") auto
next
  case (Cons c cs)
  then show ?case using assms [of "c # cs"] by (cases "at (c # cs)") auto
qed

text \<open>
  C5.  The first file of every extraction is the root, named \<open>index.html\<close>, with the whole
  document as its content, and no other emitted file has that name.  When neither pattern
  matches the document the root is the only file; that is the case in particular when
  \<open><style\<close> and \<open><script\<close> occur nowhere in it, in any case.
\<close>

theorem parseProjectCode_root_verbatim:
  "hd (parseProjectCode D) = rootFile D
   \<and> filter isIndex (parseProjectCode D) = [rootFile D]
   \<and> (firstMatch styleAt D = None \<and> firstMatch scriptAt D = None \<longrightarrow>
        parseProjectCode D = [rootFile D])
   \<and> (\<not> includes_ci D (lit ''<style'') \<and> \<not> includes_ci D (lit ''<script'') \<longrightarrow>
        parseProjectCode D = [rootFile D])"
proof -
  have a: "hd (parseProjectCode D) = rootFile D"
    by (simp add: parseProjectCode_def Let_def)
  have b: "filter isIndex (parseProjectCode D) = [rootFile D]"
    by (simp add: parseProjectCode_def Let_def isIndex_def)
  have c: "firstMatch styleAt D = None \<Longrightarrow> firstMatch scriptAt D = None \<Longrightarrow>
        parseProjectCode D = [rootFile D]"
    by (simp add: parseProjectCode_def)
  have d: "\<not> includes_ci D (lit ''<style'') \<Longrightarrow> firstMatch styleAt D = None"
    by (rule firstMatch_None_if [OF styleAt_Some_starts])
  have e: "\<not> includes_ci D (lit ''<script'') \<Longrightarrow> firstMatch scriptAt D = None"
    by (rule firstMatch_None_if [OF scriptAt_Some_starts])
  show ?thesis
  proof (intro conjI impI)
    show "hd (parseProjectCode D) = rootFile D" by (rule a)
    show "filter isIndex (parseProjectCode D) = [rootFile D]" by (rule b)
  next
    assume "firstMatch styleAt D = None \<and> firstMatch scriptAt D = None"
    then show "parseProjectCode D = [rootFile D]"
      using c by simp
  next
    assume "\<not> includes_ci D (lit ''<style'') \<and> \<not> includes_ci D (lit ''<script'')"
    then show "parseProjectCode D = [rootFile D]"
      using c d e by simp
  qed
qed

theorem parseProjectCode_root_verbatim_witness:
  "\<not> includes_ci (lit ''<p>hi</p>'') (lit ''<style'')
   \<and> \<not> includes_ci (lit ''<p>hi</p>'') (lit ''<script'')
   \<and> firstMatch styleAt (lit ''<p>hi</p>'') = None
   \<and> firstMatch scriptAt (lit ''<p>hi</p>'') = None
   \<and> parseProjectCode (lit ''<p>hi</p>'') = [rootFile (lit ''<p>hi</p>'')]"
proof -
  have h: "\<not> includes_ci (lit ''<p>hi</p>'') (lit ''<style'')
         \<and> \<not> includes_ci (lit ''<p>hi</p>'') (lit ''<script'')"
    by (simp add: lit_def startsWith_ci_def ci_eq_def toUpperAscii_def)
  have m: "firstMatch styleAt (lit ''<p>hi</p>'') = None
         \<and> firstMatch scriptAt (lit ''<p>hi</p>'') = None"
    by (simp add: lit_def styleAt_def scriptAt_def ci_eq_def toUpperAscii_def)
  show ?thesis
    using h m parseProjectCode_root_verbatim [of "lit ''<p>hi</p>''"] by simp
qed

section \<open>Evaluation on concrete documents\<close>

lemma ci_eq_other:
  "\<not> (0x41 \<le> p \<and> p \<le> 0x5A) \<Longrightarrow> \<not> (0x61 \<le> p \<and> p \<le> 0x7A) \<Longrightarrow> ci_eq p c \<longleftrightarrow> c = p"
  unfolding ci_eq_def toUpperAscii_def
  by (simp split: if_splits) unat_arith

lemma ci_eq_lower:
  "0x61 \<le> p \<and> p \<le> 0x7A \<Longrightarrow> ci_eq p c \<longleftrightarrow> c = p \<or> c = p - 0x20"
  unfolding ci_eq_def toUpperAscii_def
  by (simp split: if_splits) unat_arith

lemma ci_eq_tag_chars:
  "ci_eq 0x3C c \<longleftrightarrow> c = 0x3C"
  "ci_eq 0x2F c \<longleftrightarrow> c = 0x2F"
  "ci_eq 0x3E c \<longleftrightarrow> c = 0x3E"
  "ci_eq 0x73 c \<longleftrightarrow> c = 0x73 \<or> c = 0x53"
  "ci_eq 0x74 c \<longleftrightarrow> c = 0x74 \<or> c = 0x54"
  "ci_eq 0x79 c \<longleftrightarrow> c = 0x79 \<or> c = 0x59"
  "ci_eq 0x6C c \<longleftrightarrow> c = 0x6C \<or> c = 0x4C"
  "ci_eq 0x65 c \<longleftrightarrow> c = 0x65 \<or> c = 0x45"
  "ci_eq 0x63 c \<longleftrightarrow> c = 0x63 \<or> c = 0x43"
  "ci_eq 0x72 c \<longleftrightarrow> c = 0x72 \<or> c = 0x52"
  "ci_eq 0x69 c \<longleftrightarrow> c = 0x69 \<or> c = 0x49"
  "ci_eq 0x70 c \<longleftrightarrow> c = 0x70 \<or> c = 0x50"
  by (simp_all add: ci_eq_other ci_eq_lower)

lemmas eval_strings =
  lit_def startsWith_def startsWith_ci_def ci_eq_tag_chars isWhiteSpace_def trim_def
  styleAt_def scriptAt_def afterTagEnd_def replace_def removeAll_str_def

lemma bundlePreview_exampleFiles: "bundlePreview exampleFiles = bundledDoc"
  by (simp add: eval_strings bundlePreview_def inject_def isIndex_def)

lemma stripFences_bundledDoc: "stripFences bundledDoc = bundledDoc"
  by (simp add: eval_strings stripFences_def)

lemma stripFences_editedDoc: "stripFences editedDoc = editedDoc"
  by (simp add: eval_strings stripFences_def)

lemma length_docs: "50 < length bundledDoc" "50 < length editedDoc"
  by (simp_all add: lit_def)

lemma trim_make_it_blue: "trim (lit ''make it blue'') \<noteq> []"
  by (simp add: eval_strings)

lemma sendBegin_exampleEditor: "sendBegin project exampleEditor \<noteq> None"
  by (simp add: sendBegin_def Let_def trim_make_it_blue)

section \<open>Properties of the edit cycle\<close>

lemma find_isIndex_parse: "find isIndex (parseProjectCode d) = Some (rootFile d)"
  by (simp add: parseProjectCode_def Let_def isIndex_def)

lemma mergeFiles_eq:
  "mergeFiles d prev = map (\<lambda>f. if isIndex f then f\<lparr>content := d\<rparr> else f) prev"
  by (simp add: mergeFiles_def Let_def find_isIndex_parse)

lemma acceptedCode_None_iff:
  "acceptedCode stream = None
     \<longleftrightarrow> snd stream = Raises \<or> length (stripFences (concat (fst stream))) \<le> 50"
  by (auto simp: acceptedCode_def Let_def split: ending.splits)

lemma acceptedCode_Some_iff:
  "acceptedCode stream = Some d
     \<longleftrightarrow> snd stream = Completes \<and> d = stripFences (concat (fst stream)) \<and> 50 < length d"
  by (auto simp: acceptedCode_def Let_def split: ending.splits)

lemma sendBegin_Some:
  "sendBegin project s \<noteq> None \<Longrightarrow>
   sendBegin project s
     = Some (chatInput s, chatHistory s @ [\<lparr>role = User, msg_text = chatInput s\<rparr>],
             [OnUpdate (project\<lparr>project_chatHistory :=
                                  Some (chatHistory s @ [\<lparr>role = User, msg_text = chatInput s\<rparr>])\<rparr>)],
             s\<lparr>chatInput := [], isEditing := True, viewMode := Preview,
               chatHistory := chatHistory s @ [\<lparr>role = User, msg_text = chatInput s\<rparr>, progressMsg]\<rparr>)"
  by (simp add: sendBegin_def Let_def split: if_splits)

lemma handleSendMessage_success:
  assumes "sendBegin project s \<noteq> None"
      and "acceptedCode (streamEdit (bundlePreview (files s)) (chatInput s)) = Some d"
  shows "snd (handleSendMessage streamEdit project s)
           = s\<lparr>chatInput := [], isEditing := False, viewMode := Preview,
               chatHistory := chatHistory s @ [\<lparr>role = User, msg_text = chatInput s\<rparr>, successMsg],
               files := mergeFiles d (files s)\<rparr>"
  by (simp add: handleSendMessage_def sendBegin_Some [OF assms(1)] sendResume_def assms(2) Let_def)

lemma handleSendMessage_failure:
  assumes "sendBegin project s \<noteq> None"
      and "acceptedCode (streamEdit (bundlePreview (files s)) (chatInput s)) = None"
  shows "snd (handleSendMessage streamEdit project s)
           = s\<lparr>chatInput := [], isEditing := False, viewMode := Preview,
               chatHistory := chatHistory s
                 @ [\<lparr>role = User, msg_text = chatInput s\<rparr>, progressMsg, errorMsg]\<rparr>"
  by (simp add: handleSendMessage_def sendBegin_Some [OF assms(1)] sendResume_def assms(2) Let_def)

lemma msgs_distinct [simp]:
  "progressMsg \<noteq> errorMsg" "\<lparr>role = User, msg_text = t\<rparr> \<noteq> errorMsg"
  "successMsg \<noteq> errorMsg" "errorMsg \<noteq> progressMsg"
  "errorMsg \<noteq> \<lparr>role = User, msg_text = t\<rparr>" "errorMsg \<noteq> successMsg"
  by (simp_all add: progressMsg_def errorMsg_def successMsg_def lit_def)

text \<open>
  The failure paths of the cycle itself.  When a request is sent (the chat input is not blank
  and no edit is running) and the stream that the cycle consumes throws, or the response, fences
  removed and trimmed, has at most 50 code units, the files of the store stay as they were and
  the chat history grows by the user's message, the progress message and one failure message.
\<close>

lemma cycle_failure_keeps_files:
  assumes "sendBegin project s \<noteq> None"
      and "snd (streamEdit (bundlePreview (files s)) (chatInput s)) = Raises
           \<or> length (stripFences (concat (fst (streamEdit (bundlePreview (files s))
                                                   (chatInput s))))) \<le> 50"
  shows "files (snd (handleSendMessage streamEdit project s)) = files s
       \<and> chatHistory (snd (handleSendMessage streamEdit project s))
           = chatHistory s @ [\<lparr>role = User, msg_text = chatInput s\<rparr>, progressMsg, errorMsg]
       \<and> count_list (drop (length (chatHistory s))
                        (chatHistory (snd (handleSendMessage streamEdit project s))))
                     errorMsg = 1"
proof -
  have n: "acceptedCode (streamEdit (bundlePreview (files s)) (chatInput s)) = None"
    using assms(2) by (simp add: acceptedCode_None_iff)
  show ?thesis
    by (simp add: handleSendMessage_failure [of project s streamEdit, OF assms(1) n])
qed

text \<open>
  The stream of \<open>streamCodeEdit\<close> never throws.  It yields the non-empty texts of the
  chunks the service delivered, in order, and when the service throws it yields the code it was
  given after them.
\<close>

lemma streamCodeEdit_stream:
  "streamCodeEdit service currentCode prompt
     = (concat (map (\<lambda>chunk. case chunk of Some t \<Rightarrow> if t \<noteq> [] then [t] else []
                                             | None \<Rightarrow> [])
                    (fst (service currentCode prompt)))
        @ (if snd (service currentCode prompt) = Raises then [currentCode] else []),
        Completes)"
  by (cases "snd (service currentCode prompt)") (simp_all add: streamCodeEdit_def Let_def)

lemma initEditor_blocksProject:
  "initEditor blocksProject
     = \<lparr>viewMode = Preview,
        files = [rootFile (lit ''<style>p{color:red}</style><script>alert(1)</script>''),
                 cssFile (lit ''p{color:red}''), jsFile (lit ''alert(1)'')],
        activeFileId = lit ''1'', chatInput = [], isEditing = False, chatHistory = []\<rparr>"
proof -
  have "parseProjectCode (lit ''<style>p{color:red}</style><script>alert(1)</script>'')
          = [rootFile (lit ''<style>p{color:red}</style><script>alert(1)</script>''),
             cssFile (lit ''p{color:red}''), jsFile (lit ''alert(1)'')]"
    by (simp add: parseProjectCode_def eval_strings)
  then show ?thesis
    by (simp add: initEditor_def)
qed

lemma reachable_exampleEditor: "reachable exampleEditor"
proof -
  have "reachable (initEditor blocksProject)"
    by (rule reachable.opened)
  then have "reachable (handleFileChange exampleDoc (initEditor blocksProject))"
    by (rule reachable.changed)
  then have "reachable ((handleFileChange exampleDoc (initEditor blocksProject))
                          \<lparr>chatInput := lit ''make it blue''\<rparr>)"
    by (rule reachable.typed)
  then have "reachable ((handleFileChange exampleDoc (initEditor blocksProject))
                          \<lparr>chatInput := lit ''make it blue'', viewMode := CodeView\<rparr>)"
    by (rule reachable.switched)
  moreover have "(handleFileChange exampleDoc (initEditor blocksProject))
                   \<lparr>chatInput := lit ''make it blue'', viewMode := CodeView\<rparr>
                 = exampleEditor"
    by (simp add: initEditor_blocksProject handleFileChange_def)
  ultimately show ?thesis by simp
qed

lemma stripFences_interruptedDoc: "stripFences interruptedDoc = interruptedDoc"
  by (simp add: eval_strings stripFences_def)

text \<open>
  C1.  The claim: when the generation backend raises an error, the files of the store are
  afterwards what they were and one failure message is recorded.  The code at a store with a
  style and a script file, on a request that the service answers by throwing: the stream of
  \<open>streamCodeEdit\<close> ends with the bundle in place of the error, the text passes the check,
  the root file is overwritten with the bundle and the history records a success and no failure
  message.  When the service throws after a fragment, the root file becomes that fragment
  followed by the bundle.
\<close>

theorem service_error_overwrites_root:
  "reachable exampleEditor
   \<and> snd (failingService (bundlePreview (files exampleEditor)) (chatInput exampleEditor)) = Raises
   \<and> files (snd (handleSendMessage (streamCodeEdit failingService) exampleProject exampleEditor))
       = [rootFile bundledDoc, cssFile (lit ''p{color:red}''), jsFile (lit ''alert(1)'')]
   \<and> files (snd (handleSendMessage (streamCodeEdit failingService) exampleProject exampleEditor))
       \<noteq> files exampleEditor
   \<and> chatHistory (snd (handleSendMessage (streamCodeEdit failingService) exampleProject
          exampleEditor))
       = [\<lparr>role = User, msg_text = lit ''make it blue''\<rparr>, successMsg]
   \<and> errorMsg \<notin> set (chatHistory (snd (handleSendMessage (streamCodeEdit failingService)
                                          exampleProject exampleEditor)))
   \<and> snd (interruptedService (bundlePreview (files exampleEditor)) (chatInput exampleEditor))
       = Raises
   \<and> files (snd (handleSendMessage (streamCodeEdit interruptedService) exampleProject
                    exampleEditor))
       = [rootFile interruptedDoc, cssFile (lit ''p{color:red}''), jsFile (lit ''alert(1)'')]
   \<and> chatHistory (snd (handleSendMessage (streamCodeEdit interruptedService) exampleProject
          exampleEditor))
       = [\<lparr>role = User, msg_text = lit ''make it blue''\<rparr>, successMsg]"
proof -
  have b: "sendBegin exampleProject exampleEditor \<noteq> None"
    by (rule sendBegin_exampleEditor)
  have a: "acceptedCode (streamCodeEdit failingService (bundlePreview (files exampleEditor))
             (chatInput exampleEditor)) = Some bundledDoc"
    by (simp add: acceptedCode_Some_iff streamCodeEdit_def bundlePreview_exampleFiles
          stripFences_bundledDoc length_docs)
  have j: "lit ''<html>'' @ bundledDoc = interruptedDoc" "lit ''<html>'' \<noteq> []"
    by (simp_all add: lit_def)
  have l: "50 < length interruptedDoc"
    by (simp add: lit_def)
  have i: "acceptedCode (streamCodeEdit interruptedService (bundlePreview (files exampleEditor))
             (chatInput exampleEditor)) = Some interruptedDoc"
    by (simp add: acceptedCode_Some_iff streamCodeEdit_def bundlePreview_exampleFiles j
          stripFences_interruptedDoc l)
  have d: "bundledDoc \<noteq> exampleDoc"
    by (simp add: lit_def)
  have r1: "snd (handleSendMessage (streamCodeEdit failingService) exampleProject exampleEditor)
      = exampleEditor\<lparr>chatInput := [], isEditing := False, viewMode := Preview,
          chatHistory := chatHistory exampleEditor
            @ [\<lparr>role = User, msg_text = chatInput exampleEditor\<rparr>, successMsg],
          files := mergeFiles bundledDoc (files exampleEditor)\<rparr>"
    by (rule handleSendMessage_success [of exampleProject exampleEditor
          "streamCodeEdit failingService" bundledDoc, OF b a])
  have r2: "snd (handleSendMessage (streamCodeEdit interruptedService) exampleProject
                  exampleEditor)
      = exampleEditor\<lparr>chatInput := [], isEditing := False, viewMode := Preview,
          chatHistory := chatHistory exampleEditor
            @ [\<lparr>role = User, msg_text = chatInput exampleEditor\<rparr>, successMsg],
          files := mergeFiles interruptedDoc (files exampleEditor)\<rparr>"
    by (rule handleSendMessage_success [of exampleProject exampleEditor
          "streamCodeEdit interruptedService" interruptedDoc, OF b i])
  show ?thesis
    using reachable_exampleEditor
    by (simp add: r1 r2 mergeFiles_eq isIndex_def d)
qed

text \<open>
  C3.  After a successful edit cycle every file named \<open>index.html\<close> has the content of the
  root file extracted from the response, which is the whole response; every other file is what
  it was, and ids, names, languages and order of the files are unchanged.
\<close>

theorem merge_isolation:
  assumes "sendBegin project s \<noteq> None"
      and "acceptedCode (streamEdit (bundlePreview (files s)) (chatInput s)) = Some updatedCode"
      and "find isIndex (parseProjectCode updatedCode) = Some newIndex"
  shows "files (snd (handleSendMessage streamEdit project s))
           = map (\<lambda>f. if isIndex f then f\<lparr>content := content newIndex\<rparr> else f) (files s)
       \<and> map fid (files (snd (handleSendMessage streamEdit project s))) = map fid (files s)
       \<and> map name (files (snd (handleSendMessage streamEdit project s))) = map name (files s)
       \<and> map language (files (snd (handleSendMessage streamEdit project s)))
           = map language (files s)
       \<and> (\<forall>k < length (files s).
            if isIndex (files s ! k)
            then content (files (snd (handleSendMessage streamEdit project s)) ! k)
                   = content newIndex
            else files (snd (handleSendMessage streamEdit project s)) ! k = files s ! k)
       \<and> content newIndex = updatedCode"
proof -
  have c: "content newIndex = updatedCode"
    using assms(3) by (auto simp: find_isIndex_parse)
  have r: "files (snd (handleSendMessage streamEdit project s))
             = map (\<lambda>f. if isIndex f then f\<lparr>content := updatedCode\<rparr> else f) (files s)"
    by (simp add: handleSendMessage_success [of project s streamEdit updatedCode, OF assms(1,2)] mergeFiles_eq)
  show ?thesis
    unfolding r c by (simp add: comp_def)
qed

theorem merge_isolation_witness:
  "sendBegin exampleProject exampleEditor \<noteq> None
   \<and> acceptedCode (streamCodeEdit answeringService (bundlePreview (files exampleEditor))
                     (chatInput exampleEditor)) = Some editedDoc
   \<and> find isIndex (parseProjectCode editedDoc) = Some (rootFile editedDoc)
   \<and> files exampleEditor
       = [rootFile exampleDoc, cssFile (lit ''p{color:red}''), jsFile (lit ''alert(1)'')]
   \<and> files (snd (handleSendMessage (streamCodeEdit answeringService) exampleProject
                    exampleEditor))
       = [rootFile editedDoc, cssFile (lit ''p{color:red}''), jsFile (lit ''alert(1)'')]"
proof -
  have b: "sendBegin exampleProject exampleEditor \<noteq> None"
    by (rule sendBegin_exampleEditor)
  have e: "lit ''<html><head></head><body><p>Hello, blue world of previews!</p></body></html>''
             \<noteq> []"
    by (simp add: lit_def)
  have a: "acceptedCode (streamCodeEdit answeringService (bundlePreview (files exampleEditor))
                     (chatInput exampleEditor)) = Some editedDoc"
    by (simp add: acceptedCode_Some_iff streamCodeEdit_def stripFences_editedDoc length_docs e)
  have f: "find isIndex (parseProjectCode editedDoc) = Some (rootFile editedDoc)"
    by (rule find_isIndex_parse)
  show ?thesis
    using b a f
      merge_isolation [of exampleProject exampleEditor "streamCodeEdit answeringService" editedDoc
        "rootFile editedDoc", OF b a f]
    by (simp add: isIndex_def)
qed

section \<open>Invariants of the editor\<close>

lemma parseProjectCode_ids:
  "parseProjectCode d \<noteq> [] \<and> distinct (map fid (parseProjectCode d))
   \<and> fid (hd (parseProjectCode d)) = lit ''1''"
  by (simp add: parseProjectCode_def Let_def)

lemma initEditor_invariant:
  "files (initEditor project) \<noteq> []
   \<and> distinct (map fid (files (initEditor project)))
   \<and> activeFileId (initEditor project) \<in> fid ` set (files (initEditor project))"
proof -
  define d where "d = (case project_code project of Some c \<Rightarrow> c | None \<Rightarrow> [])"
  have f: "files (initEditor project) = parseProjectCode d"
    by (simp add: initEditor_def Let_def d_def)
  obtain g gs where p: "parseProjectCode d = g # gs"
    using parseProjectCode_ids [of d] by (cases "parseProjectCode d") auto
  have g: "fid g = lit ''1''"
    using parseProjectCode_ids [of d] p by simp
  have a: "activeFileId (initEditor project) = lit ''1''"
    using p g by (simp add: initEditor_def Let_def d_def [symmetric])
  show ?thesis
    using parseProjectCode_ids [of d] p g by (simp add: f a)
qed

lemma map_fid_update_content:
  "map fid (map (\<lambda>f. if P f then f\<lparr>content := c\<rparr> else f) fs) = map fid fs"
  by (induction fs) auto

lemma same_ids:
  assumes "map fid gs = map fid fs"
  shows "(gs = [] \<longleftrightarrow> fs = []) \<and> (distinct (map fid gs) \<longleftrightarrow> distinct (map fid fs))
       \<and> fid ` set gs = fid ` set fs"
proof -
  have "set (map fid gs) = set (map fid fs)" using assms by simp
  then have "fid ` set gs = fid ` set fs" by simp
  moreover have "gs = [] \<longleftrightarrow> fs = []" using assms by (metis map_is_Nil_conv)
  ultimately show ?thesis using assms by simp
qed

lemma mergeFiles_fid: "map fid (mergeFiles d fs) = map fid fs"
  unfolding mergeFiles_eq by (rule map_fid_update_content)

lemma handleFileChange_fid: "map fid (files (handleFileChange c s)) = map fid (files s)"
  unfolding handleFileChange_def using map_fid_update_content [of "\<lambda>f. fid f = activeFileId s"]
  by simp

lemma handleDeleteFile_invariant:
  assumes "files s \<noteq> []" and "distinct (map fid (files s))"
      and "activeFileId s \<in> fid ` set (files s)"
  shows "files (snd (handleDeleteFile i confirmed s)) \<noteq> []
       \<and> distinct (map fid (files (snd (handleDeleteFile i confirmed s))))
       \<and> activeFileId (snd (handleDeleteFile i confirmed s))
           \<in> fid ` set (files (snd (handleDeleteFile i confirmed s)))"
proof (cases "length (files s) \<le> 1 \<or> \<not> confirmed")
  case True
  then show ?thesis using assms by (auto simp: handleDeleteFile_def)
next
  case False
  then have len: "1 < length (files s)" and conf: confirmed by auto
  have ex: "\<exists>f \<in> set (files s). fid f \<noteq> i"
  proof -
    obtain a b rest where abr: "files s = a # b # rest"
      using len by (cases "files s"; cases "tl (files s)") auto
    then have "fid a \<noteq> fid b"
      using assms(2) by auto
    then have "fid a \<noteq> i \<or> fid b \<noteq> i" by auto
    then show ?thesis using abr by auto
  qed
  then obtain g where g: "find (\<lambda>f. fid f \<noteq> i) (files s) = Some g"
    by (cases "find (\<lambda>f. fid f \<noteq> i) (files s)") (auto simp: find_None_iff)
  then have gin: "g \<in> set (files s)" and gne: "fid g \<noteq> i"
    by (auto simp: find_Some_iff)
  have s': "snd (handleDeleteFile i confirmed s)
              = s\<lparr>files := filter (\<lambda>f. fid f \<noteq> i) (files s),
                  activeFileId := (if activeFileId s = i then fid g else activeFileId s)\<rparr>"
    using len conf by (simp add: handleDeleteFile_def g)
  have ne: "filter (\<lambda>f. fid f \<noteq> i) (files s) \<noteq> []"
    using gin gne by (auto simp: filter_empty_conv)
  have di: "distinct (map fid (filter (\<lambda>f. fid f \<noteq> i) (files s)))"
    using assms(2) by (simp add: distinct_map_filter)
  have ac: "(if activeFileId s = i then fid g else activeFileId s)
              \<in> fid ` set (filter (\<lambda>f. fid f \<noteq> i) (files s))"
    using assms(3) gin gne by auto
  show ?thesis
    unfolding s' using ne di ac by simp
qed

lemma reachable_invariant:
  "reachable s \<Longrightarrow>
     files s \<noteq> [] \<and> distinct (map fid (files s)) \<and> activeFileId s \<in> fid ` set (files s)"
proof (induction rule: reachable.induct)
  case (opened project)
  show ?case by (rule initEditor_invariant)
next
  case (selected s f)
  then show ?case by simp
next
  case (typed s t)
  then show ?case by simp
next
  case (switched s v)
  then show ?case by simp
next
  case (changed s newContent)
  then show ?case
    using same_ids [OF handleFileChange_fid, of newContent s]
    by (simp add: handleFileChange_def)
next
  case (created s newId answer)
  then show ?case
    by (auto simp: handleCreateFile_def Let_def split: option.splits)
next
  case (deleted s i confirmed)
  then show ?case
    using handleDeleteFile_invariant by blast
next
  case (begun s project userMsg newHistoryUser effs s')
  then show ?case
    by (auto simp: sendBegin_def Let_def split: if_splits)
next
  case (resumed s project newHistoryUser stream)
  show ?case
  proof (cases "acceptedCode stream")
    case None
    then show ?thesis using resumed.IH by (simp add: sendResume_def)
  next
    case (Some d)
    then show ?thesis
      using resumed.IH same_ids [OF mergeFiles_fid, of d "files s"]
      by (simp add: sendResume_def Let_def)
  qed
qed

lemma hd_filter_find: "find P xs = Some x \<Longrightarrow> hd (filter P xs) = x"
  by (induction xs) (auto split: if_splits)

lemma isIndex_update_content [simp]: "isIndex (f\<lparr>content := c\<rparr>) = isIndex f"
  by (simp add: isIndex_def)

lemma filter_isIndex_update_content:
  "length (filter isIndex (map (\<lambda>f. if P f then f\<lparr>content := c\<rparr> else f) fs))
     = length (filter isIndex fs)"
  by (induction fs) auto

text \<open>
  C10.  In a store of more than one file whose ids are distinct and whose active-file pointer
  is the id of one of its files, a confirmed deletion leaves the files whose id differs from
  the deleted one, at least one of them, and the pointer is again the id of a file of the
  store: the id of the first remaining file when the active file was deleted, the old pointer
  otherwise.  Every reachable state has distinct ids and such a pointer, as
  \<open>reachable_invariant\<close> shows.
\<close>

theorem active_pointer_after_delete:
  assumes "1 < length (files s)"
      and "distinct (map fid (files s))"
      and "activeFileId s \<in> fid ` set (files s)"
  shows "files (snd (handleDeleteFile i True s)) = filter (\<lambda>f. fid f \<noteq> i) (files s)
       \<and> files (snd (handleDeleteFile i True s)) \<noteq> []
       \<and> activeFileId (snd (handleDeleteFile i True s))
           \<in> fid ` set (files (snd (handleDeleteFile i True s)))
       \<and> (activeFileId s = i \<longrightarrow>
            activeFileId (snd (handleDeleteFile i True s))
              = fid (hd (files (snd (handleDeleteFile i True s)))))
       \<and> (activeFileId s \<noteq> i \<longrightarrow>
            activeFileId (snd (handleDeleteFile i True s)) = activeFileId s)"
proof -
  have ne: "files s \<noteq> []" using assms(1) by auto
  note inv = handleDeleteFile_invariant [OF ne assms(2) assms(3), of i True]
  have fs: "files (snd (handleDeleteFile i True s)) = filter (\<lambda>f. fid f \<noteq> i) (files s)"
    using assms(1) by (simp add: handleDeleteFile_def)
  have keep: "activeFileId s \<noteq> i \<Longrightarrow>
      activeFileId (snd (handleDeleteFile i True s)) = activeFileId s"
    using assms(1) by (simp add: handleDeleteFile_def)
  have move: "activeFileId (snd (handleDeleteFile i True s))
                = fid (hd (files (snd (handleDeleteFile i True s))))"
    if "activeFileId s = i"
  proof -
    from inv fs obtain g where "g \<in> set (files s)" "fid g \<noteq> i"
      by (metis (mono_tags, lifting) filter_empty_conv)
    then obtain h where h: "find (\<lambda>f. fid f \<noteq> i) (files s) = Some h"
      by (cases "find (\<lambda>f. fid f \<noteq> i) (files s)") (auto simp: find_None_iff)
    have "activeFileId (snd (handleDeleteFile i True s)) = fid h"
      using assms(1) that by (simp add: handleDeleteFile_def h)
    then show ?thesis
      by (simp add: fs hd_filter_find [OF h])
  qed
  show ?thesis
    using inv fs keep move by blast
qed

theorem active_pointer_after_delete_witness:
  "1 < length (files exampleEditor)
   \<and> distinct (map fid (files exampleEditor))
   \<and> activeFileId exampleEditor = lit ''1''
   \<and> files (snd (handleDeleteFile (lit ''1'') True exampleEditor))
       = [cssFile (lit ''p{color:red}''), jsFile (lit ''alert(1)'')]
   \<and> activeFileId (snd (handleDeleteFile (lit ''1'') True exampleEditor)) = lit ''2''
   \<and> files (snd (handleDeleteFile (lit ''3'') True exampleEditor))
       = [rootFile exampleDoc, cssFile (lit ''p{color:red}'')]
   \<and> activeFileId (snd (handleDeleteFile (lit ''3'') True exampleEditor)) = lit ''1''"
proof -
  have l: "1 < length (files exampleEditor)" by simp
  have d: "distinct (map fid (files exampleEditor))" by simp
  have a: "activeFileId exampleEditor \<in> fid ` set (files exampleEditor)" by simp
  show ?thesis
    using l d
      active_pointer_after_delete [OF l d a, of "lit ''1''"]
      active_pointer_after_delete [OF l d a, of "lit ''3''"]
    by simp
qed

text \<open>
  C4, as the code has it.  Every reachable store has at least one file.  The store an editor
  opens with has exactly one file named \<open>index.html\<close>, and the number of such files is kept
  by a content update and by the merge of an edit cycle, by a creation unless the new file is
  given that name, and by a deletion unless a file of that name has the deleted id.
\<close>

theorem store_invariant:
  "(reachable s \<longrightarrow> files s \<noteq> [])
   \<and> length (filter isIndex (files (initEditor project))) = 1
   \<and> length (filter isIndex (files (handleFileChange newContent s)))
       = length (filter isIndex (files s))
   \<and> length (filter isIndex (files (snd (sendResume project h stream s))))
       = length (filter isIndex (files s))
   \<and> length (filter isIndex (files (snd (handleSendMessage streamEdit project s))))
       = length (filter isIndex (files s))
   \<and> (answer \<noteq> Some (lit ''index.html'') \<longrightarrow>
        length (filter isIndex (files (handleCreateFile answer newId s)))
          = length (filter isIndex (files s)))
   \<and> ((\<forall>f \<in> set (files s). fid f = i \<longrightarrow> \<not> isIndex f) \<longrightarrow>
        length (filter isIndex (files (snd (handleDeleteFile i confirmed s))))
          = length (filter isIndex (files s)))"
proof -
  have nonempty: "reachable s \<Longrightarrow> files s \<noteq> []"
    using reachable_invariant by blast
  have init: "length (filter isIndex (files (initEditor project))) = 1"
    by (simp add: initEditor_def parseProjectCode_def Let_def isIndex_def)
  have change: "length (filter isIndex (files (handleFileChange newContent s)))
                  = length (filter isIndex (files s))"
    unfolding handleFileChange_def
    using filter_isIndex_update_content [of "\<lambda>f. fid f = activeFileId s"] by simp
  have merge: "length (filter isIndex (mergeFiles d fs)) = length (filter isIndex fs)" for d fs
    unfolding mergeFiles_eq by (rule filter_isIndex_update_content)
  have resume: "length (filter isIndex (files (snd (sendResume p hh st t))))
                  = length (filter isIndex (files t))" for p hh st t
    by (cases "acceptedCode st") (simp_all add: sendResume_def Let_def merge)
  have cycle: "length (filter isIndex (files (snd (handleSendMessage streamEdit project s))))
                 = length (filter isIndex (files s))"
  proof (cases "sendBegin project s")
    case None
    then show ?thesis by (simp add: handleSendMessage_def)
  next
    case (Some r)
    then have b: "sendBegin project s \<noteq> None" by simp
    have "snd (handleSendMessage streamEdit project s)
            = snd (sendResume project
                     (chatHistory s @ [\<lparr>role = User, msg_text = chatInput s\<rparr>])
                     (streamEdit (bundlePreview (files s)) (chatInput s))
                     (s\<lparr>chatInput := [], isEditing := True, viewMode := Preview,
                        chatHistory := chatHistory s
                          @ [\<lparr>role = User, msg_text = chatInput s\<rparr>, progressMsg]\<rparr>))"
      by (simp add: handleSendMessage_def sendBegin_Some [OF b] Let_def split: prod.splits)
    then show ?thesis
      by (simp add: resume)
  qed
  have create: "answer \<noteq> Some (lit ''index.html'') \<Longrightarrow>
        length (filter isIndex (files (handleCreateFile answer newId s)))
          = length (filter isIndex (files s))"
    by (auto simp: handleCreateFile_def Let_def isIndex_def split: option.splits)
  have delete: "(\<forall>f \<in> set (files s). fid f = i \<longrightarrow> \<not> isIndex f) \<Longrightarrow>
        length (filter isIndex (files (snd (handleDeleteFile i confirmed s))))
          = length (filter isIndex (files s))"
  proof -
    assume a: "\<forall>f \<in> set (files s). fid f = i \<longrightarrow> \<not> isIndex f"
    have "filter isIndex (filter (\<lambda>f. fid f \<noteq> i) (files s)) = filter isIndex (files s)"
      using a by (auto intro: filter_cong)
    then show ?thesis by (simp add: handleDeleteFile_def)
  qed
  show ?thesis
    using nonempty init change resume [of project h stream s] cycle create delete
    by (intro conjI impI) assumption+
qed

lemma parseProjectCode_styled:
  "parseProjectCode (lit ''<style>a</style>'')
     = [rootFile (lit ''<style>a</style>''), cssFile (lit ''a'')]"
  by (simp add: parseProjectCode_def eval_strings)

lemma initEditor_styledProject:
  "initEditor styledProject
     = \<lparr>viewMode = Preview,
        files = [rootFile (lit ''<style>a</style>''), cssFile (lit ''a'')],
        activeFileId = lit ''1'', chatInput = [], isEditing = False, chatHistory = []\<rparr>"
  by (simp add: initEditor_def parseProjectCode_styled)

theorem store_invariant_witness:
  "reachable (initEditor styledProject)
   \<and> files (initEditor styledProject)
       = [rootFile (lit ''<style>a</style>''), cssFile (lit ''a'')]
   \<and> Some (lit ''page2.html'') \<noteq> Some (lit ''index.html'')
   \<and> length (filter isIndex (files (handleCreateFile (Some (lit ''page2.html''))
                (lit ''1700000000000'') (initEditor styledProject)))) = 1
   \<and> \<not> isIndex (cssFile (lit ''a''))
   \<and> length (filter isIndex (files (snd (handleDeleteFile (lit ''2'') True
                (initEditor styledProject))))) = 1"
proof -
  have r: "reachable (initEditor styledProject)"
    by (rule reachable.opened)
  have n: "Some (lit ''page2.html'') \<noteq> Some (lit ''index.html'')"
    by (simp add: lit_def)
  have c: "\<forall>f \<in> set (files (initEditor styledProject)). fid f = lit ''2'' \<longrightarrow> \<not> isIndex f"
    by (simp add: initEditor_styledProject isIndex_def)
  have one: "length (filter isIndex (files (initEditor styledProject))) = 1"
    by (simp add: initEditor_styledProject isIndex_def)
  show ?thesis
    using r n c one
      store_invariant [of "initEditor styledProject" styledProject "[]" "[]" "([], Raises)"
        "\<lambda>c p. ([], Raises)" "Some (lit ''page2.html'')" "lit ''1700000000000''" "lit ''2''" True]
    by (simp add: initEditor_styledProject isIndex_def)
qed

text \<open>
  C4 as stated fails: the root can be deleted while another file remains, and a second file
  can be given the root's name.
\<close>

theorem store_invariant_counterexample:
  "reachable (snd (handleDeleteFile (lit ''1'') True (initEditor styledProject)))
   \<and> files (snd (handleDeleteFile (lit ''1'') True (initEditor styledProject)))
       = [cssFile (lit ''a'')]
   \<and> filter isIndex (files (snd (handleDeleteFile (lit ''1'') True (initEditor styledProject))))
       = []
   \<and> reachable (handleCreateFile (Some (lit ''index.html'')) (lit ''1700000000000'')
                  (initEditor styledProject))
   \<and> length (filter isIndex (files (handleCreateFile (Some (lit ''index.html''))
                (lit ''1700000000000'') (initEditor styledProject)))) = 2"
proof -
  have r: "reachable (initEditor styledProject)"
    by (rule reachable.opened)
  have d: "reachable (snd (handleDeleteFile (lit ''1'') True (initEditor styledProject)))"
    using r by (rule reachable.deleted)
  have fresh: "lit ''1700000000000'' \<notin> fid ` set (files (initEditor styledProject))"
    unfolding initEditor_styledProject by (simp add: lit_def)
  have c: "reachable (handleCreateFile (Some (lit ''index.html'')) (lit ''1700000000000'')
                  (initEditor styledProject))"
    using r fresh by (rule reachable.created)
  have e: "lit ''index.html'' \<noteq> []"
    by (simp add: lit_def)
  show ?thesis
    using d c
    by (simp add: initEditor_styledProject handleDeleteFile_def handleCreateFile_def
          isIndex_def Let_def e)
qed

section \<open>Literal matching\<close>

lemma stripPrefixBy_Some_iff:
  "stripPrefixBy eq pat s = Some r \<longleftrightarrow> (\<exists>m. s = m @ r \<and> list_all2 eq pat m)"
proof (induction eq pat s rule: stripPrefixBy.induct)
  case (1 eq s)
  then show ?case by auto
next
  case (2 eq p ps)
  then show ?case by (auto simp: list_all2_Cons1)
next
  case (3 eq p ps c cs)
  then show ?case by (auto simp: list_all2_Cons1 Cons_eq_append_conv)
qed

lemma stripPrefixBy_eq_Some_iff: "stripPrefixBy (=) pat s = Some r \<longleftrightarrow> s = pat @ r"
  by (auto simp: stripPrefixBy_Some_iff list_all2_eq [symmetric])

lemma startsWith_iff: "startsWith s pat \<longleftrightarrow> (\<exists>r. s = pat @ r)"
  unfolding startsWith_def using stripPrefixBy_eq_Some_iff [of pat s] by auto

lemma startsWith_ci_iff:
  "startsWith_ci s pat \<longleftrightarrow> (\<exists>m r. s = m @ r \<and> list_all2 ci_eq pat m)"
  unfolding startsWith_ci_def using stripPrefixBy_Some_iff [of ci_eq pat s] by auto

lemma startsWith_shorten:
  assumes "startsWith (xs @ ys) pat" and "length pat \<le> length xs"
  shows "startsWith xs pat"
proof -
  from assms(1) obtain r where r: "xs @ ys = pat @ r" by (auto simp: startsWith_iff)
  then have "pat = take (length pat) xs"
    using assms(2) by (metis append_eq_conv_conj take_append diff_is_0_eq take_0 append_Nil2)
  then have "xs = pat @ drop (length pat) xs" by (metis append_take_drop_id)
  then show ?thesis unfolding startsWith_iff by blast
qed

lemma startsWith_ci_shorten:
  assumes "startsWith_ci (xs @ ys) pat" and "length pat \<le> length xs"
  shows "startsWith_ci xs pat"
proof -
  from assms(1) obtain m r where r: "xs @ ys = m @ r" and m: "list_all2 ci_eq pat m"
    by (auto simp: startsWith_ci_iff)
  have len: "length m = length pat" using m by (simp add: list_all2_lengthD)
  then have "m = take (length pat) xs"
    using assms(2) r by (metis append_eq_conv_conj take_append diff_is_0_eq take_0 append_Nil2)
  then have "xs = m @ drop (length pat) xs" by (metis append_take_drop_id)
  then show ?thesis unfolding startsWith_ci_iff using m by blast
qed

lemma includes_str_iff: "includes_str s pat \<longleftrightarrow> (\<exists>u v. s = u @ v \<and> startsWith v pat)"
proof (induction s)
  case Nil
  then show ?case by auto
next
  case (Cons c cs)
  show ?case
  proof
    assume "includes_str (c # cs) pat"
    then consider "startsWith (c # cs) pat" | "includes_str cs pat" by auto
    then show "\<exists>u v. c # cs = u @ v \<and> startsWith v pat"
    proof cases
      case 1
      then show ?thesis by (metis append_Nil)
    next
      case 2
      then obtain u v where "cs = u @ v" "startsWith v pat" using Cons.IH by auto
      then show ?thesis by (metis append_Cons)
    qed
  next
    assume "\<exists>u v. c # cs = u @ v \<and> startsWith v pat"
    then obtain u v where uv: "c # cs = u @ v" and sw: "startsWith v pat" by auto
    show "includes_str (c # cs) pat"
    proof (cases u)
      case Nil
      then show ?thesis using uv sw by auto
    next
      case (Cons a u')
      then have "cs = u' @ v" using uv by auto
      then show ?thesis using sw Cons.IH by auto
    qed
  qed
qed

lemma includes_ci_iff: "includes_ci s pat \<longleftrightarrow> (\<exists>u v. s = u @ v \<and> startsWith_ci v pat)"
proof (induction s)
  case Nil
  then show ?case by auto
next
  case (Cons c cs)
  show ?case
  proof
    assume "includes_ci (c # cs) pat"
    then consider "startsWith_ci (c # cs) pat" | "includes_ci cs pat" by auto
    then show "\<exists>u v. c # cs = u @ v \<and> startsWith_ci v pat"
    proof cases
      case 1
      then show ?thesis by (metis append_Nil)
    next
      case 2
      then obtain u v where "cs = u @ v" "startsWith_ci v pat" using Cons.IH by auto
      then show ?thesis by (metis append_Cons)
    qed
  next
    assume "\<exists>u v. c # cs = u @ v \<and> startsWith_ci v pat"
    then obtain u v where uv: "c # cs = u @ v" and sw: "startsWith_ci v pat" by auto
    show "includes_ci (c # cs) pat"
    proof (cases u)
      case Nil
      then show ?thesis using uv sw by auto
    next
      case (Cons a u')
      then have "cs = u' @ v" using uv by auto
      then show ?thesis using sw Cons.IH by auto
    qed
  qed
qed

section \<open>Replacement of the first occurrence\<close>

lemma splitFirst_first:
  assumes "pat \<noteq> []" and "\<not> includes_str (pre @ butlast pat) pat"
  shows "splitFirst pat (pre @ pat @ post) = Some (pre, post)"
  using assms(2)
proof (induction pre)
  case Nil
  obtain p ps where p: "pat = p # ps" using assms(1) by (cases pat) auto
  show ?case by (simp add: p stripPrefixBy_eq_Some_iff [of "p # ps" "p # ps @ post" post, simplified])
next
  case (Cons c pre)
  have no: "\<not> startsWith ((c # pre) @ butlast pat) pat"
    using Cons.prems by simp
  have len: "length pat \<le> length ((c # pre) @ butlast pat)" by simp
  have "(c # pre) @ pat @ post = ((c # pre) @ butlast pat) @ ([last pat] @ post)"
    using assms(1) by simp
  then have "\<not> startsWith ((c # pre) @ pat @ post) pat"
    using no len startsWith_shorten by metis
  then have n: "stripPrefixBy (=) pat (c # pre @ pat @ post) = None"
    by (simp add: startsWith_def)
  have "\<not> includes_str (pre @ butlast pat) pat"
    using Cons.prems by simp
  then show ?case using Cons.IH n by simp
qed

lemma getSubstitution_plain:
  "0x24 \<notin> set template \<Longrightarrow> getSubstitution matched pre post template = template"
  by (induction matched pre post template rule: getSubstitution.induct) auto

lemma inject_first:
  assumes "trim payload \<noteq> []" and "closing \<noteq> []"
      and "0x24 \<notin> set (opening @ payload @ ending @ closing)"
      and "\<not> includes_str (pre @ butlast closing) closing"
  shows "inject opening payload ending closing (pre @ closing @ post)
           = pre @ opening @ payload @ ending @ closing @ post"
proof -
  have inc: "includes_str (pre @ closing @ post) closing"
    unfolding includes_str_iff startsWith_iff by blast
  show ?thesis
    using assms(1) inc
    by (simp add: inject_def replace_def splitFirst_first [OF assms(2) assms(4)]
          getSubstitution_plain [OF assms(3)])
qed

lemma inject_append:
  "trim payload \<noteq> [] \<Longrightarrow> \<not> includes_str doc closing \<Longrightarrow>
     inject opening payload ending closing doc = doc @ opening @ payload @ ending"
  by (simp add: inject_def)

section \<open>Placement of the injected blocks\<close>

text \<open>
  C6, as the code has it.  The bundle is the root content after the style injection and then
  the script injection, the second working on the result of the first.  An injection does
  nothing when the payload is blank, that is empty after trimming.  Otherwise it appends the
  block when the closing tag does not occur in the document, and when the tag occurs, and
  neither the payload nor the tags contain a dollar sign, it puts the block right in front of
  the first occurrence of the tag.  No step of \<open>bundlePreview\<close> can throw, so the model
  has no error result and is a total function of the file sequence.
\<close>

theorem bundlePreview_injection:
  "bundlePreview fs
     = inject (lit ''<script>'')
         (join [0x0A] (map content (filter (\<lambda>f. language f = Javascript) fs)))
         (lit ''</script>'') (lit ''</body>'')
         (inject (lit ''<style>'')
            (join [0x0A] (map content (filter (\<lambda>f. language f = Css) fs)))
            (lit ''</style>'') (lit ''</head>'')
            (case find isIndex fs of Some f \<Rightarrow> content f | None \<Rightarrow> []))
   \<and> (trim payload = [] \<longrightarrow> inject opening payload ending closing doc = doc)
   \<and> (trim payload \<noteq> [] \<and> \<not> includes_str doc closing \<longrightarrow>
        inject opening payload ending closing doc = doc @ opening @ payload @ ending)
   \<and> (trim payload \<noteq> [] \<and> closing \<noteq> []
        \<and> 0x24 \<notin> set (opening @ payload @ ending @ closing)
        \<and> \<not> includes_str (pre @ butlast closing) closing \<longrightarrow>
        inject opening payload ending closing (pre @ closing @ post)
          = pre @ opening @ payload @ ending @ closing @ post)"
proof (intro conjI impI)
  show "bundlePreview fs
     = inject (lit ''<script>'')
         (join [0x0A] (map content (filter (\<lambda>f. language f = Javascript) fs)))
         (lit ''</script>'') (lit ''</body>'')
         (inject (lit ''<style>'')
            (join [0x0A] (map content (filter (\<lambda>f. language f = Css) fs)))
            (lit ''</style>'') (lit ''</head>'')
            (case find isIndex fs of Some f \<Rightarrow> content f | None \<Rightarrow> []))"
    by (simp add: bundlePreview_def Let_def)
next
  assume "trim payload = []"
  then show "inject opening payload ending closing doc = doc"
    by (rule inject_blank)
next
  assume "trim payload \<noteq> [] \<and> \<not> includes_str doc closing"
  then show "inject opening payload ending closing doc = doc @ opening @ payload @ ending"
    by (simp add: inject_append)
next
  assume "trim payload \<noteq> [] \<and> closing \<noteq> []
        \<and> 0x24 \<notin> set (opening @ payload @ ending @ closing)
        \<and> \<not> includes_str (pre @ butlast closing) closing"
  then show "inject opening payload ending closing (pre @ closing @ post)
          = pre @ opening @ payload @ ending @ closing @ post"
    using inject_first by blast
qed

theorem bundlePreview_injection_witness:
  "trim (lit '' '') = []
   \<and> inject (lit ''<style>'') (lit '' '') (lit ''</style>'') (lit ''</head>'')
        (lit ''<head></head>'') = lit ''<head></head>''
   \<and> trim (lit ''a{}'') \<noteq> []
   \<and> \<not> includes_str (lit ''<p>hi</p>'') (lit ''</head>'')
   \<and> inject (lit ''<style>'') (lit ''a{}'') (lit ''</style>'') (lit ''</head>'')
        (lit ''<p>hi</p>'') = lit ''<p>hi</p><style>a{}</style>''
   \<and> lit ''</head>'' \<noteq> []
   \<and> 0x24 \<notin> set (lit ''<style>'' @ lit ''a{}'' @ lit ''</style>'' @ lit ''</head>'')
   \<and> \<not> includes_str (lit ''<head>'' @ butlast (lit ''</head>'')) (lit ''</head>'')
   \<and> inject (lit ''<style>'') (lit ''a{}'') (lit ''</style>'') (lit ''</head>'')
        (lit ''<head>'' @ lit ''</head>'' @ lit ''<body></head></body>'')
       = lit ''<head><style>a{}</style></head><body></head></body>''"
proof -
  have b: "trim (lit '' '') = []"
    by (simp add: eval_strings)
  have n: "trim (lit ''a{}'') \<noteq> []"
    by (simp add: eval_strings)
  have a: "\<not> includes_str (lit ''<p>hi</p>'') (lit ''</head>'')"
    by (simp add: eval_strings)
  have c: "lit ''</head>'' \<noteq> []"
    by (simp add: lit_def)
  have d: "0x24 \<notin> set (lit ''<style>'' @ lit ''a{}'' @ lit ''</style>'' @ lit ''</head>'')"
    by (simp add: lit_def)
  have f: "\<not> includes_str (lit ''<head>'' @ butlast (lit ''</head>'')) (lit ''</head>'')"
    by (simp add: eval_strings)
  have i1: "inject (lit ''<style>'') (lit '' '') (lit ''</style>'') (lit ''</head>'')
        (lit ''<head></head>'') = lit ''<head></head>''"
    using b bundlePreview_injection [of "[]" "lit '' ''" "lit ''<style>''" "lit ''</style>''"
        "lit ''</head>''" "lit ''<head></head>''" "[]" "[]"]
    by blast
  have i2: "inject (lit ''<style>'') (lit ''a{}'') (lit ''</style>'') (lit ''</head>'')
        (lit ''<p>hi</p>'') = lit ''<p>hi</p>'' @ lit ''<style>'' @ lit ''a{}'' @ lit ''</style>''"
    using n a bundlePreview_injection [of "[]" "lit ''a{}''" "lit ''<style>''" "lit ''</style>''"
        "lit ''</head>''" "lit ''<p>hi</p>''" "[]" "[]"]
    by blast
  have i3: "inject (lit ''<style>'') (lit ''a{}'') (lit ''</style>'') (lit ''</head>'')
        (lit ''<head>'' @ lit ''</head>'' @ lit ''<body></head></body>'')
       = lit ''<head>'' @ lit ''<style>'' @ lit ''a{}'' @ lit ''</style>'' @ lit ''</head>''
         @ lit ''<body></head></body>''"
    using n c d f bundlePreview_injection [of "[]" "lit ''a{}''" "lit ''<style>''"
        "lit ''</style>''" "lit ''</head>''" "[]" "lit ''<head>''" "lit ''<body></head></body>''"]
    by blast
  show ?thesis
    using b n a c d f i1 i2 i3 by (simp add: lit_def)
qed

text \<open>
  C6 as stated fails for a payload that is not empty but blank: a style file holding one space
  gives a non-empty payload, and no style block is injected.
\<close>

theorem bundlePreview_injection_counterexample:
  "join [0x0A] (map content (filter (\<lambda>f. language f = Css) blankStyleFiles)) = lit '' ''
   \<and> lit '' '' \<noteq> []
   \<and> bundlePreview blankStyleFiles = lit ''<head></head>''
   \<and> bundlePreview blankStyleFiles \<noteq> lit ''<head><style> </style></head>''"
proof -
  have b: "bundlePreview blankStyleFiles = lit ''<head></head>''"
    by (simp add: bundlePreview_def inject_def isIndex_def eval_strings)
  show ?thesis
    unfolding b by (simp add: lit_def)
qed

section \<open>The round trip through extraction and bundling\<close>

lemma bundlePreview_root_only: "bundlePreview [rootFile D] = D"
  by (simp add: bundlePreview_def inject_def isIndex_def)

lemma parseProjectCode_single:
  "length (parseProjectCode D) = 1 \<Longrightarrow> parseProjectCode D = [rootFile D]"
  by (auto simp: parseProjectCode_def Let_def split: if_splits)

text \<open>
  C2, as the code has it.  When the extraction of a document yields the root file alone, one
  cycle gives the document back, and so a second cycle gives what the first gave.
\<close>

theorem roundtrip_fixed_point:
  assumes "length (parseProjectCode D) = 1"
  shows "bundlePreview (parseProjectCode D) = D
       \<and> bundlePreview (parseProjectCode (bundlePreview (parseProjectCode D)))
           = bundlePreview (parseProjectCode D)"
  by (simp add: parseProjectCode_single [OF assms] bundlePreview_root_only)

theorem roundtrip_fixed_point_witness:
  "length (parseProjectCode (lit ''<p>hi</p>'')) = 1
   \<and> bundlePreview (parseProjectCode (lit ''<p>hi</p>'')) = lit ''<p>hi</p>''
   \<and> bundlePreview (parseProjectCode (bundlePreview (parseProjectCode (lit ''<p>hi</p>''))))
       = lit ''<p>hi</p>''"
proof -
  have l: "length (parseProjectCode (lit ''<p>hi</p>'')) = 1"
    by (simp add: parseProjectCode_def eval_strings)
  show ?thesis
    using l roundtrip_fixed_point [OF l] by simp
qed

text \<open>
  C2 as stated fails as soon as a style block is extracted: the root keeps the block and the
  bundler injects its content again, so every cycle adds one more block.
\<close>

theorem roundtrip_fixed_point_counterexample:
  "bundlePreview (parseProjectCode (lit ''<style>a</style>''))
     = lit ''<style>a</style><style>a</style>''
   \<and> bundlePreview (parseProjectCode (bundlePreview (parseProjectCode (lit ''<style>a</style>''))))
     = lit ''<style>a</style><style>a</style><style>a</style>''
   \<and> bundlePreview (parseProjectCode (bundlePreview (parseProjectCode (lit ''<style>a</style>''))))
     \<noteq> bundlePreview (parseProjectCode (lit ''<style>a</style>''))"
proof -
  have p1: "parseProjectCode (lit ''<style>a</style><style>a</style>'')
     = [rootFile (lit ''<style>a</style><style>a</style>''), cssFile (lit ''a'')]"
    by (simp add: parseProjectCode_def eval_strings)
  have b1: "bundlePreview [rootFile (lit ''<style>a</style>''), cssFile (lit ''a'')]
     = lit ''<style>a</style><style>a</style>''"
    by (simp add: bundlePreview_def inject_def isIndex_def eval_strings)
  have b2: "bundlePreview [rootFile (lit ''<style>a</style><style>a</style>''), cssFile (lit ''a'')]
     = lit ''<style>a</style><style>a</style><style>a</style>''"
    by (simp add: bundlePreview_def inject_def isIndex_def eval_strings)
  have d: "lit ''<style>a</style><style>a</style><style>a</style>''
             \<noteq> lit ''<style>a</style><style>a</style>''"
    by (simp add: lit_def)
  show ?thesis
    by (simp add: parseProjectCode_styled b1 p1 b2 d)
qed

section \<open>The first block of each kind\<close>

lemma lazyUntil_here: "startsWith_ci s close \<Longrightarrow> lazyUntil close s = Some []"
  by (cases s) auto

lemma lazyUntil_first:
  assumes "list_all2 ci_eq close ctag" and "close \<noteq> []"
  shows "\<not> includes_ci (inner @ butlast ctag) close
           \<Longrightarrow> lazyUntil close (inner @ ctag @ post) = Some inner"
proof (induction inner)
  case Nil
  have "startsWith_ci (ctag @ post) close"
    unfolding startsWith_ci_iff using assms(1) by blast
  then show ?case by (simp add: lazyUntil_here)
next
  case (Cons c inner)
  have len: "length ctag = length close"
    using assms(1) by (simp add: list_all2_lengthD)
  then have ne: "ctag \<noteq> []" using assms(2) by auto
  have no: "\<not> startsWith_ci ((c # inner) @ butlast ctag) close"
    using Cons.prems by simp
  have "(c # inner) @ ctag @ post = ((c # inner) @ butlast ctag) @ ([last ctag] @ post)"
    using ne by simp
  moreover have "length close \<le> length ((c # inner) @ butlast ctag)"
    using len by simp
  ultimately have "\<not> startsWith_ci ((c # inner) @ ctag @ post) close"
    using no startsWith_ci_shorten by metis
  moreover have "\<not> includes_ci (inner @ butlast ctag) close"
    using Cons.prems by simp
  ultimately show ?case using Cons.IH by simp
qed

lemma afterTagEnd_attrs:
  "0x3E \<notin> set attrs \<Longrightarrow> afterTagEnd (attrs @ 0x3E # body) = Some body"
proof -
  assume a: "0x3E \<notin> set attrs"
  have "dropWhile (\<lambda>c. c \<noteq> 0x3E) (attrs @ 0x3E # body)
          = dropWhile (\<lambda>c. c \<noteq> 0x3E) attrs @ 0x3E # body"
    by (simp add: dropWhile_append3)
  moreover have "dropWhile (\<lambda>c. c \<noteq> 0x3E) attrs = []"
    using a by (auto simp: dropWhile_eq_Nil_conv)
  ultimately show ?thesis by (simp add: afterTagEnd_def)
qed

lemma stripPrefixBy_match:
  "list_all2 eq pat m \<Longrightarrow> stripPrefixBy eq pat (m @ r) = Some r"
  by (auto simp: stripPrefixBy_Some_iff)

lemma stripPrefixBy_drop:
  "stripPrefixBy eq pat s = Some r \<Longrightarrow> r = drop (length pat) s"
  by (auto simp: stripPrefixBy_Some_iff list_all2_lengthD)

lemma firstMatch_here: "at s = Some r \<Longrightarrow> firstMatch at s = Some r"
  by (cases s) auto

lemma firstMatch_skip:
  "\<forall>j < length pre. at (drop j (pre @ s)) = None
     \<Longrightarrow> firstMatch at (pre @ s) = firstMatch at s"
proof (induction pre)
  case Nil
  then show ?case by simp
next
  case (Cons c pre)
  have "at ((c # pre) @ s) = None"
    using Cons.prems by (metis drop0 length_greater_0_conv list.distinct(1))
  moreover have "\<forall>j < length pre. at (drop j (pre @ s)) = None"
  proof (intro allI impI)
    fix j assume "j < length pre"
    then have "Suc j < length (c # pre)" by simp
    then have "at (drop (Suc j) ((c # pre) @ s)) = None" using Cons.prems by blast
    then show "at (drop j (pre @ s)) = None" by simp
  qed
  ultimately show ?case using Cons.IH by simp
qed

lemma opener_not_before:
  assumes "\<not> includes_ci (pre @ butlast otag) pat" and "length otag = length pat"
      and "j < length pre"
  shows "\<not> startsWith_ci (drop j (pre @ otag @ rest)) pat"
proof
  assume s: "startsWith_ci (drop j (pre @ otag @ rest)) pat"
  have ne: "otag \<noteq> [] \<or> pat = []" using assms(2) by auto
  have d: "drop j (pre @ otag @ rest)
             = (drop j pre @ butlast otag) @ (drop (length otag - 1) otag @ rest)"
    using assms(3) by (simp add: butlast_conv_take)
  have "length pat \<le> length (drop j pre @ butlast otag)"
    using assms(2,3) by simp
  then have "startsWith_ci (drop j pre @ butlast otag) pat"
    using s d startsWith_ci_shorten by metis
  moreover have "pre @ butlast otag = take j pre @ (drop j pre @ butlast otag)"
    by simp
  ultimately have "includes_ci (pre @ butlast otag) pat"
    unfolding includes_ci_iff by blast
  then show False using assms(1) by simp
qed

lemma styleAt_block:
  assumes "list_all2 ci_eq (lit ''<style'') otag" and "0x3E \<notin> set attrs"
      and "list_all2 ci_eq (lit ''</style>'') ctag"
      and "\<not> includes_ci (inner @ butlast ctag) (lit ''</style>'')"
  shows "styleAt (otag @ attrs @ [0x3E] @ inner @ ctag @ post) = Some inner"
proof -
  have c: "lit ''</style>'' \<noteq> []" by (simp add: lit_def)
  show ?thesis
    using assms(2)
    by (simp add: styleAt_def stripPrefixBy_match [OF assms(1)] afterTagEnd_attrs
          lazyUntil_first [OF assms(3) c assms(4)])
qed

lemma firstMatch_style_block:
  assumes "list_all2 ci_eq (lit ''<style'') otag" and "0x3E \<notin> set attrs"
      and "list_all2 ci_eq (lit ''</style>'') ctag"
      and "\<not> includes_ci (pre @ butlast otag) (lit ''<style'')"
      and "\<not> includes_ci (inner @ butlast ctag) (lit ''</style>'')"
  shows "firstMatch styleAt (pre @ otag @ attrs @ [0x3E] @ inner @ ctag @ post) = Some inner"
proof -
  have len: "length otag = length (lit ''<style'')"
    using assms(1) by (simp add: list_all2_lengthD)
  have "\<forall>j < length pre.
          styleAt (drop j (pre @ otag @ attrs @ [0x3E] @ inner @ ctag @ post)) = None"
  proof (intro allI impI)
    fix j assume j: "j < length pre"
    have "\<not> startsWith_ci (drop j (pre @ otag @ attrs @ [0x3E] @ inner @ ctag @ post))
              (lit ''<style'')"
      by (rule opener_not_before [OF assms(4) len j])
    then show "styleAt (drop j (pre @ otag @ attrs @ [0x3E] @ inner @ ctag @ post)) = None"
      using styleAt_Some_starts by (metis not_Some_eq)
  qed
  then have "firstMatch styleAt (pre @ otag @ attrs @ [0x3E] @ inner @ ctag @ post)
               = firstMatch styleAt (otag @ attrs @ [0x3E] @ inner @ ctag @ post)"
    by (rule firstMatch_skip)
  then show ?thesis
    using firstMatch_here [where at = styleAt, OF styleAt_block [OF assms(1,2,3,5)]]
    by simp
qed

lemma src_letters: "list_all2 ci_eq (lit ''src'') m \<Longrightarrow> 0x3E \<notin> set m"
  by (auto simp: lit_def list_all2_Cons1 ci_eq_tag_chars)

lemma src_before_tag_end:
  assumes "startsWith_ci (xs @ 0x3E # rest) (lit ''src'')"
  shows "startsWith_ci xs (lit ''src'')"
proof -
  from assms obtain m r where e: "xs @ 0x3E # rest = m @ r"
    and m: "list_all2 ci_eq (lit ''src'') m"
    by (auto simp: startsWith_ci_iff)
  have g: "0x3E \<notin> set m" using m by (rule src_letters)
  from e consider us where "xs = m @ us" | us where "m = xs @ us" "us \<noteq> []"
    by (auto simp: append_eq_append_conv2) (metis append_Nil2)
  then show ?thesis
  proof cases
    case 1
    then show ?thesis unfolding startsWith_ci_iff using m by blast
  next
    case 2
    then have "us @ r = 0x3E # rest" using e by simp
    then have "hd us = 0x3E" using 2(2) by (cases us) auto
    then have "0x3E \<in> set m" using 2 by (cases us) auto
    then show ?thesis using g by simp
  qed
qed

lemma srcAhead_attrs:
  "0x3E \<notin> set attrs \<Longrightarrow> \<not> includes_ci attrs (lit ''src'')
     \<Longrightarrow> \<not> srcAhead (attrs @ 0x3E # rest)"
proof (induction attrs)
  case Nil
  have "\<not> startsWith_ci [] (lit ''src'')"
    by (simp add: startsWith_ci_def lit_def)
  then have "\<not> startsWith_ci ([] @ 0x3E # rest) (lit ''src'')"
    using src_before_tag_end by blast
  then show ?case by simp
next
  case (Cons c attrs)
  have "\<not> startsWith_ci (c # attrs) (lit ''src'')"
    using Cons.prems by simp
  then have "\<not> startsWith_ci ((c # attrs) @ 0x3E # rest) (lit ''src'')"
    using src_before_tag_end by blast
  moreover have "\<not> srcAhead (attrs @ 0x3E # rest)"
    using Cons by simp
  ultimately show ?case by simp
qed

lemma scriptAt_block:
  assumes "list_all2 ci_eq (lit ''<script'') otag" and "0x3E \<notin> set attrs"
      and "\<not> includes_ci attrs (lit ''src'')"
      and "list_all2 ci_eq (lit ''</script>'') ctag"
      and "\<not> includes_ci (inner @ butlast ctag) (lit ''</script>'')"
  shows "scriptAt (otag @ attrs @ [0x3E] @ inner @ ctag @ post) = Some inner"
proof -
  have c: "lit ''</script>'' \<noteq> []" by (simp add: lit_def)
  have s: "\<not> srcAhead (attrs @ 0x3E # inner @ ctag @ post)"
    using assms(2,3) by (rule srcAhead_attrs)
  show ?thesis
    using assms(2) s
    by (simp add: scriptAt_def stripPrefixBy_match [OF assms(1)] afterTagEnd_attrs
          lazyUntil_first [OF assms(4) c assms(5)])
qed

lemma scriptAt_external:
  assumes "startsWith_ci s (lit ''<script'') \<longrightarrow> srcAhead (drop 7 s)"
  shows "scriptAt s = None"
proof (cases "stripPrefixBy ci_eq (lit ''<script'') s")
  case None
  then show ?thesis by (simp add: scriptAt_def)
next
  case (Some r)
  have "length (lit ''<script'') = 7" by (simp add: lit_def)
  then have "r = drop 7 s"
    using stripPrefixBy_drop [OF Some] by simp
  moreover have "startsWith_ci s (lit ''<script'')"
    using Some by (simp add: startsWith_ci_def)
  ultimately have "srcAhead r" using assms by simp
  then show ?thesis by (simp add: scriptAt_def Some)
qed

lemma firstMatch_script_block:
  assumes "list_all2 ci_eq (lit ''<script'') otag" and "0x3E \<notin> set attrs"
      and "\<not> includes_ci attrs (lit ''src'')"
      and "list_all2 ci_eq (lit ''</script>'') ctag"
      and "\<not> includes_ci (inner @ butlast ctag) (lit ''</script>'')"
      and "\<forall>j < length pre.
             startsWith_ci (drop j (pre @ otag @ attrs @ [0x3E] @ inner @ ctag @ post))
               (lit ''<script'')
             \<longrightarrow> srcAhead (drop (j + 7) (pre @ otag @ attrs @ [0x3E] @ inner @ ctag @ post))"
  shows "firstMatch scriptAt (pre @ otag @ attrs @ [0x3E] @ inner @ ctag @ post) = Some inner"
proof -
  have "\<forall>j < length pre.
          scriptAt (drop j (pre @ otag @ attrs @ [0x3E] @ inner @ ctag @ post)) = None"
  proof (intro allI impI)
    fix j assume j: "j < length pre"
    have "drop 7 (drop j (pre @ otag @ attrs @ [0x3E] @ inner @ ctag @ post))
            = drop (j + 7) (pre @ otag @ attrs @ [0x3E] @ inner @ ctag @ post)"
      by (simp only: drop_drop add.commute [of 7 j])
    then show "scriptAt (drop j (pre @ otag @ attrs @ [0x3E] @ inner @ ctag @ post)) = None"
      using assms(6) j scriptAt_external by metis
  qed
  then have "firstMatch scriptAt (pre @ otag @ attrs @ [0x3E] @ inner @ ctag @ post)
               = firstMatch scriptAt (otag @ attrs @ [0x3E] @ inner @ ctag @ post)"
    by (rule firstMatch_skip)
  then show ?thesis
    using firstMatch_here [where at = scriptAt, OF scriptAt_block [OF assms(1,2,3,4,5)]]
    by simp
qed

lemma filter_language_parse:
  "filter (\<lambda>f. language f = Css) (parseProjectCode D)
     = (case firstMatch styleAt D of
          Some g \<Rightarrow> if trim g = [] then [] else [cssFile (trim g)]
        | None \<Rightarrow> [])"
  "filter (\<lambda>f. language f = Javascript) (parseProjectCode D)
     = (case firstMatch scriptAt D of
          Some g \<Rightarrow> if trim g = [] then [] else [jsFile (trim g)]
        | None \<Rightarrow> [])"
  by (simp_all add: parseProjectCode_def Let_def split: option.splits)

text \<open>
  C7, as the code has it.  An extraction has at most one style file and at most one script
  file, at most three files in all: the root, then the style file if there is one, then the
  script file if there is one.  A document in which the style pattern matches nowhere has no
  style file, and one in which the script pattern matches nowhere has no script file.  Take a
  document with a block: an opening \<open><style\<close> in
  any case, then code units other than \<open>>\<close>, a \<open>>\<close>, an inner text and the nearest closing
  \<open></style>\<close> in any case, with no \<open><style\<close> starting before it.  Its style file is
  the inner text trimmed, and there is none when the inner text is blank; whatever follows the
  block adds nothing.  The same holds for \<open><script\<close> and \<open></script>\<close>, where the block has
  no \<open>src\<close> in its tag and every \<open><script\<close> starting before it has one.
\<close>

theorem parseProjectCode_first_block_only:
  "length (filter (\<lambda>f. language f = Css) (parseProjectCode D)) \<le> 1
   \<and> length (filter (\<lambda>f. language f = Javascript) (parseProjectCode D)) \<le> 1
   \<and> length (parseProjectCode D) \<le> 3
   \<and> parseProjectCode D
       = rootFile D # filter (\<lambda>f. language f = Css) (parseProjectCode D)
           @ filter (\<lambda>f. language f = Javascript) (parseProjectCode D)
   \<and> (firstMatch styleAt D = None \<longrightarrow>
        filter (\<lambda>f. language f = Css) (parseProjectCode D) = [])
   \<and> (firstMatch scriptAt D = None \<longrightarrow>
        filter (\<lambda>f. language f = Javascript) (parseProjectCode D) = [])
   \<and> (D = pre @ otag @ attrs @ [0x3E] @ inner @ ctag @ post
      \<and> list_all2 ci_eq (lit ''<style'') otag \<and> 0x3E \<notin> set attrs
      \<and> list_all2 ci_eq (lit ''</style>'') ctag
      \<and> \<not> includes_ci (pre @ butlast otag) (lit ''<style'')
      \<and> \<not> includes_ci (inner @ butlast ctag) (lit ''</style>'')
      \<longrightarrow> filter (\<lambda>f. language f = Css) (parseProjectCode D)
            = (if trim inner = [] then [] else [cssFile (trim inner)]))
   \<and> (D = pre @ otag @ attrs @ [0x3E] @ inner @ ctag @ post
      \<and> list_all2 ci_eq (lit ''<script'') otag \<and> 0x3E \<notin> set attrs
      \<and> \<not> includes_ci attrs (lit ''src'')
      \<and> list_all2 ci_eq (lit ''</script>'') ctag
      \<and> (\<forall>j < length pre. startsWith_ci (drop j D) (lit ''<script'')
                             \<longrightarrow> srcAhead (drop (j + 7) D))
      \<and> \<not> includes_ci (inner @ butlast ctag) (lit ''</script>'')
      \<longrightarrow> filter (\<lambda>f. language f = Javascript) (parseProjectCode D)
            = (if trim inner = [] then [] else [jsFile (trim inner)]))"
proof (intro conjI impI)
  show "length (filter (\<lambda>f. language f = Css) (parseProjectCode D)) \<le> 1"
    by (simp add: filter_language_parse split: option.splits)
  show "length (filter (\<lambda>f. language f = Javascript) (parseProjectCode D)) \<le> 1"
    by (simp add: filter_language_parse split: option.splits)
  show "length (parseProjectCode D) \<le> 3"
    by (simp add: parseProjectCode_def Let_def)
  show "parseProjectCode D
       = rootFile D # filter (\<lambda>f. language f = Css) (parseProjectCode D)
           @ filter (\<lambda>f. language f = Javascript) (parseProjectCode D)"
    by (simp add: parseProjectCode_def Let_def)
next
  assume "firstMatch styleAt D = None"
  then show "filter (\<lambda>f. language f = Css) (parseProjectCode D) = []"
    by (simp add: filter_language_parse)
next
  assume "firstMatch scriptAt D = None"
  then show "filter (\<lambda>f. language f = Javascript) (parseProjectCode D) = []"
    by (simp add: filter_language_parse)
next
  assume a: "D = pre @ otag @ attrs @ [0x3E] @ inner @ ctag @ post
      \<and> list_all2 ci_eq (lit ''<style'') otag \<and> 0x3E \<notin> set attrs
      \<and> list_all2 ci_eq (lit ''</style>'') ctag
      \<and> \<not> includes_ci (pre @ butlast otag) (lit ''<style'')
      \<and> \<not> includes_ci (inner @ butlast ctag) (lit ''</style>'')"
  then have "firstMatch styleAt D = Some inner"
    using firstMatch_style_block [of otag attrs ctag pre inner post] by blast
  then show "filter (\<lambda>f. language f = Css) (parseProjectCode D)
            = (if trim inner = [] then [] else [cssFile (trim inner)])"
    by (simp add: filter_language_parse)
next
  assume a: "D = pre @ otag @ attrs @ [0x3E] @ inner @ ctag @ post
      \<and> list_all2 ci_eq (lit ''<script'') otag \<and> 0x3E \<notin> set attrs
      \<and> \<not> includes_ci attrs (lit ''src'')
      \<and> list_all2 ci_eq (lit ''</script>'') ctag
      \<and> (\<forall>j < length pre. startsWith_ci (drop j D) (lit ''<script'')
                             \<longrightarrow> srcAhead (drop (j + 7) D))
      \<and> \<not> includes_ci (inner @ butlast ctag) (lit ''</script>'')"
  then have "firstMatch scriptAt D = Some inner"
    using firstMatch_script_block [of otag attrs ctag inner pre post] by blast
  then show "filter (\<lambda>f. language f = Javascript) (parseProjectCode D)
            = (if trim inner = [] then [] else [jsFile (trim inner)])"
    by (simp add: filter_language_parse)
qed

theorem parseProjectCode_first_block_only_witness:
  "twoStylesDoc = lit ''<p>x</p>'' @ lit ''<STYLE'' @ lit '' media=all'' @ [0x3E] @ lit '' a{} ''
                   @ lit ''</style>'' @ lit ''<style>b{}</style>''
   \<and> list_all2 ci_eq (lit ''<style'') (lit ''<STYLE'')
   \<and> 0x3E \<notin> set (lit '' media=all'')
   \<and> list_all2 ci_eq (lit ''</style>'') (lit ''</style>'')
   \<and> \<not> includes_ci (lit ''<p>x</p>'' @ butlast (lit ''<STYLE'')) (lit ''<style'')
   \<and> \<not> includes_ci (lit '' a{} '' @ butlast (lit ''</style>'')) (lit ''</style>'')
   \<and> filter (\<lambda>f. language f = Css) (parseProjectCode twoStylesDoc) = [cssFile (lit ''a{}'')]
   \<and> threeScriptsDoc = lit ''<script src=x></script>'' @ lit ''<script'' @ [] @ [0x3E]
                   @ lit '' f() '' @ lit ''</SCRIPT>'' @ lit ''<script>g()</script>''
   \<and> list_all2 ci_eq (lit ''<script'') (lit ''<script'')
   \<and> \<not> includes_ci [] (lit ''src'')
   \<and> list_all2 ci_eq (lit ''</script>'') (lit ''</SCRIPT>'')
   \<and> \<not> (\<exists>j < length (lit ''<script src=x></script>'').
           startsWith_ci (drop j threeScriptsDoc) (lit ''<script'')
           \<and> \<not> srcAhead (drop (j + 7) threeScriptsDoc))
   \<and> \<not> includes_ci (lit '' f() '' @ butlast (lit ''</SCRIPT>'')) (lit ''</script>'')
   \<and> filter (\<lambda>f. language f = Javascript) (parseProjectCode threeScriptsDoc)
       = [jsFile (lit ''f()'')]
   \<and> firstMatch styleAt (lit ''<script>a</script>'') = None
   \<and> filter (\<lambda>f. language f = Css) (parseProjectCode (lit ''<script>a</script>'')) = []
   \<and> firstMatch scriptAt (lit ''<style>a</style>'') = None
   \<and> filter (\<lambda>f. language f = Javascript) (parseProjectCode (lit ''<style>a</style>''))
       = []"
proof -
  have s1: "twoStylesDoc = lit ''<p>x</p>'' @ lit ''<STYLE'' @ lit '' media=all'' @ [0x3E]
              @ lit '' a{} '' @ lit ''</style>'' @ lit ''<style>b{}</style>''"
    by (simp add: lit_def)
  have s2: "list_all2 ci_eq (lit ''<style'') (lit ''<STYLE'')"
    by (simp add: lit_def ci_eq_tag_chars)
  have s3: "0x3E \<notin> set (lit '' media=all'')"
    by (simp add: lit_def)
  have s4: "list_all2 ci_eq (lit ''</style>'') (lit ''</style>'')"
    by (simp add: lit_def ci_eq_tag_chars)
  have s5: "\<not> includes_ci (lit ''<p>x</p>'' @ butlast (lit ''<STYLE'')) (lit ''<style'')"
    by (simp add: eval_strings)
  have s6: "\<not> includes_ci (lit '' a{} '' @ butlast (lit ''</style>'')) (lit ''</style>'')"
    by (simp add: eval_strings)
  have s7: "trim (lit '' a{} '') = lit ''a{}''"
    by (simp add: eval_strings)
  have s8: "lit ''a{}'' \<noteq> []"
    by (simp add: lit_def)
  have css: "filter (\<lambda>f. language f = Css) (parseProjectCode twoStylesDoc)
               = [cssFile (lit ''a{}'')]"
  proof -
    have "filter (\<lambda>f. language f = Css) (parseProjectCode twoStylesDoc)
            = (if trim (lit '' a{} '') = [] then [] else [cssFile (trim (lit '' a{} ''))])"
      using s1 s2 s3 s4 s5 s6
        parseProjectCode_first_block_only [of twoStylesDoc "lit ''<p>x</p>''" "lit ''<STYLE''"
          "lit '' media=all''" "lit '' a{} ''" "lit ''</style>''" "lit ''<style>b{}</style>''"]
      by blast
    then show ?thesis by (simp add: s7 s8)
  qed
  have j1: "threeScriptsDoc = lit ''<script src=x></script>'' @ lit ''<script'' @ [] @ [0x3E]
              @ lit '' f() '' @ lit ''</SCRIPT>'' @ lit ''<script>g()</script>''"
    by (simp add: lit_def)
  have j2: "list_all2 ci_eq (lit ''<script'') (lit ''<script'')"
    by (simp add: lit_def ci_eq_tag_chars)
  have j3: "\<not> includes_ci [] (lit ''src'')"
    by (simp add: eval_strings)
  have j4: "list_all2 ci_eq (lit ''</script>'') (lit ''</SCRIPT>'')"
    by (simp add: lit_def ci_eq_tag_chars)
  have j5: "\<forall>j < length (lit ''<script src=x></script>'').
              startsWith_ci (drop j threeScriptsDoc) (lit ''<script'')
              \<longrightarrow> srcAhead (drop (j + 7) threeScriptsDoc)"
    by (simp add: eval_strings All_less_Suc)
  have j6: "\<not> includes_ci (lit '' f() '' @ butlast (lit ''</SCRIPT>'')) (lit ''</script>'')"
    by (simp add: eval_strings)
  have j7: "trim (lit '' f() '') = lit ''f()''"
    by (simp add: eval_strings)
  have j8: "lit ''f()'' \<noteq> []"
    by (simp add: lit_def)
  have j9: "(0x3E::code_unit) \<notin> set []"
    by simp
  have js: "filter (\<lambda>f. language f = Javascript) (parseProjectCode threeScriptsDoc)
              = [jsFile (lit ''f()'')]"
  proof -
    have "filter (\<lambda>f. language f = Javascript) (parseProjectCode threeScriptsDoc)
            = (if trim (lit '' f() '') = [] then [] else [jsFile (trim (lit '' f() ''))])"
      using j1 j2 j3 j4 j5 j6 j9
        parseProjectCode_first_block_only [of threeScriptsDoc "lit ''<script src=x></script>''"
          "lit ''<script''" "[]" "lit '' f() ''" "lit ''</SCRIPT>''"
          "lit ''<script>g()</script>''"]
      by blast
    then show ?thesis by (simp add: j7 j8)
  qed
  have j5': "\<not> (\<exists>j < length (lit ''<script src=x></script>'').
           startsWith_ci (drop j threeScriptsDoc) (lit ''<script'')
           \<and> \<not> srcAhead (drop (j + 7) threeScriptsDoc))"
    using j5 by blast
  have n1: "firstMatch styleAt (lit ''<script>a</script>'') = None"
    by (simp add: eval_strings)
  have n2: "firstMatch scriptAt (lit ''<style>a</style>'') = None"
    by (simp add: eval_strings)
  have nocss: "filter (\<lambda>f. language f = Css) (parseProjectCode (lit ''<script>a</script>''))
                 = []"
    using n1 parseProjectCode_first_block_only [of "lit ''<script>a</script>''" "[]" "[]" "[]"
        "[]" "[]" "[]"]
    by blast
  have nojs: "filter (\<lambda>f. language f = Javascript)
                (parseProjectCode (lit ''<style>a</style>'')) = []"
    using n2 parseProjectCode_first_block_only [of "lit ''<style>a</style>''" "[]" "[]" "[]"
        "[]" "[]" "[]"]
    by blast
  show ?thesis
    using s1 s2 s3 s4 s5 s6 css j1 j2 j3 j4 j5' j6 js n1 nocss n2 nojs by blast
qed

text \<open>
  C7 as stated fails where the inner text has white space at its ends: the style file holds
  the trimmed text, not the inner text, and a block whose inner text is blank gives no file.
\<close>

theorem parseProjectCode_first_block_only_counterexample:
  "firstMatch styleAt (lit ''<style> a </style>'') = Some (lit '' a '')
   \<and> parseProjectCode (lit ''<style> a </style>'')
       = [rootFile (lit ''<style> a </style>''), cssFile (lit ''a'')]
   \<and> lit ''a'' \<noteq> lit '' a ''
   \<and> firstMatch styleAt (lit ''<style> </style>'') = Some (lit '' '')
   \<and> parseProjectCode (lit ''<style> </style>'') = [rootFile (lit ''<style> </style>'')]"
proof -
  have m1: "firstMatch styleAt (lit ''<style> a </style>'') = Some (lit '' a '')"
    by (simp add: eval_strings)
  have m2: "firstMatch styleAt (lit ''<style> </style>'') = Some (lit '' '')"
    by (simp add: eval_strings)
  have n1: "firstMatch scriptAt (lit ''<style> a </style>'') = None"
    by (simp add: eval_strings)
  have n2: "firstMatch scriptAt (lit ''<style> </style>'') = None"
    by (simp add: eval_strings)
  have t1: "trim (lit '' a '') = lit ''a''"
    by (simp add: eval_strings)
  have t2: "trim (lit '' '') = []"
    by (simp add: eval_strings)
  have e: "lit ''a'' \<noteq> []" "lit ''a'' \<noteq> lit '' a ''"
    by (simp_all add: lit_def)
  show ?thesis
    by (simp add: parseProjectCode_def m1 m2 n1 n2 t1 t2 e)
qed

end
